theory Spec2Isabelle
  imports Main "HOL-Library.Multiset"
begin

section \<open>Numbers and dates of the host language\<close>

text \<open>
  The calendar code works on JavaScript numbers that hold integers and on \<open>Date\<close>
  objects created at midnight UTC. Integers are modelled as \<open>int\<close>. A \<open>Date\<close> is
  modelled by its day number: the count of days since 1970-01-01 (the time value
  divided by 86400000). Every \<open>Date\<close> the calendar code builds comes from
  \<open>makeDate\<close> or \<open>addDays\<close> and so sits at midnight; the time-of-day part and the
  clipping of time values beyond 10^8 days from the epoch are not modelled.
\<close>

type_synonym jsdate = int

text \<open>The remainder operator \<open>%\<close> truncates towards zero: its sign follows the dividend.\<close>

definition js_rem :: "int \<Rightarrow> int \<Rightarrow> int" where
  "js_rem a n = sgn a * (\<bar>a\<bar> mod \<bar>n\<bar>)"

text \<open>\<open>Math.floor(a / n)\<close> for a positive integer divisor.\<close>

definition floor_div :: "int \<Rightarrow> int \<Rightarrow> int" where
  "floor_div a n = a div n"

subsection \<open>Day numbers, years, months (the language standard's date arithmetic)\<close>

definition DayFromYear :: "int \<Rightarrow> int" where
  "DayFromYear y =
     365 * (y - 1970) + (y - 1969) div 4 - (y - 1901) div 100 + (y - 1601) div 400"

definition InLeapYear :: "int \<Rightarrow> int" where
  "InLeapYear y = (if (y mod 4 = 0 \<and> y mod 100 \<noteq> 0) \<or> y mod 400 = 0 then 1 else 0)"

text \<open>
  The year of a day number. The standard defines it as the largest \<open>y\<close> with
  \<open>DayFromYear y \<le> d\<close>; this is the usual computation by 400-, 100-, 4- and 1-year
  cycles counted from 1601-01-01, and \<open>YearFromTime_bounds\<close> below shows that it meets
  the standard's definition.
\<close>

definition YearFromTime :: "jsdate \<Rightarrow> int" where
  "YearFromTime d =
     (let z = d + 134774;
          n400 = z div 146097;
          r = z mod 146097;
          n100 = min 3 (r div 36524);
          r2 = r - 36524 * n100;
          n4 = r2 div 1461;
          r3 = r2 mod 1461;
          n1 = min 3 (r3 div 365)
      in 1601 + 400 * n400 + 100 * n100 + 4 * n4 + n1)"

definition DayWithinYear :: "jsdate \<Rightarrow> int" where
  "DayWithinYear d = d - DayFromYear (YearFromTime d)"

text \<open>Day within the year on which month \<open>m\<close> (0 = January) begins.\<close>

definition monthStart :: "int \<Rightarrow> int \<Rightarrow> int" where
  "monthStart m leap =
     (if m = 0 then 0 else if m = 1 then 31
      else (if m = 2 then 59 else if m = 3 then 90 else if m = 4 then 120
            else if m = 5 then 151 else if m = 6 then 181 else if m = 7 then 212
            else if m = 8 then 243 else if m = 9 then 273 else if m = 10 then 304
            else 334) + leap)"

definition MonthFromTime :: "jsdate \<Rightarrow> int" where
  "MonthFromTime d =
     (let w = DayWithinYear d; l = InLeapYear (YearFromTime d)
      in if w < 31 then 0 else if w < 59 + l then 1 else if w < 90 + l then 2
         else if w < 120 + l then 3 else if w < 151 + l then 4 else if w < 181 + l then 5
         else if w < 212 + l then 6 else if w < 243 + l then 7 else if w < 273 + l then 8
         else if w < 304 + l then 9 else if w < 334 + l then 10 else 11)"

definition DateFromTime :: "jsdate \<Rightarrow> int" where
  "DateFromTime d =
     DayWithinYear d - monthStart (MonthFromTime d) (InLeapYear (YearFromTime d)) + 1"

text \<open>\<open>MakeDay(year, month, date)\<close>: months outside 0..11 carry into the year.\<close>

definition MakeDay :: "int \<Rightarrow> int \<Rightarrow> int \<Rightarrow> jsdate" where
  "MakeDay year month dt =
     (let ym = year + month div 12; mn = month mod 12
      in DayFromYear ym + monthStart mn (InLeapYear ym) + dt - 1)"

text \<open>\<open>Date.UTC(year, month, day)\<close>: a year from 0 to 99 stands for 1900 + year.\<close>

definition DateUTC :: "int \<Rightarrow> int \<Rightarrow> int \<Rightarrow> jsdate" where
  "DateUTC year month dt =
     MakeDay (if 0 \<le> year \<and> year \<le> 99 then 1900 + year else year) month dt"

definition getUTCFullYear :: "jsdate \<Rightarrow> int" where
  "getUTCFullYear d = YearFromTime d"

definition getUTCMonth :: "jsdate \<Rightarrow> int" where
  "getUTCMonth d = MonthFromTime d"

definition getUTCDate :: "jsdate \<Rightarrow> int" where
  "getUTCDate d = DateFromTime d"

text \<open>\<open>getUTCDay\<close>: 0 = Sunday, ..., 6 = Saturday; 1970-01-01 was a Thursday.\<close>

definition getUTCDay :: "jsdate \<Rightarrow> int" where
  "getUTCDay d = (d + 4) mod 7"

text \<open>\<open>setUTCDate(dt)\<close> rebuilds the day from the date's own year and month.\<close>

definition setUTCDate :: "jsdate \<Rightarrow> int \<Rightarrow> jsdate" where
  "setUTCDate d dt = MakeDay (YearFromTime d) (MonthFromTime d) dt"

section \<open>Computus: date helpers\<close>

definition makeDate :: "int \<Rightarrow> int \<Rightarrow> int \<Rightarrow> jsdate" where
  "makeDate year month day = DateUTC year (month - 1) day"

definition addDays :: "jsdate \<Rightarrow> int \<Rightarrow> jsdate" where
  "addDays date days = setUTCDate date (getUTCDate date + days)"

definition dayOfWeek :: "jsdate \<Rightarrow> int" where
  "dayOfWeek date = getUTCDay date"

definition nearestSunday :: "jsdate \<Rightarrow> jsdate" where
  "nearestSunday date =
     (let dow = dayOfWeek date
      in if dow = 0 then date
         else if dow \<le> 3 then addDays date (- dow)
         else addDays date (7 - dow))"

definition sundayOnOrAfter :: "jsdate \<Rightarrow> jsdate" where
  "sundayOnOrAfter date =
     (let dow = dayOfWeek date
      in if dow = 0 then date else addDays date (7 - dow))"

definition weekdayOnOrBefore :: "jsdate \<Rightarrow> int \<Rightarrow> jsdate" where
  "weekdayOnOrBefore date weekday =
     (let dow = dayOfWeek date; diff = js_rem (dow - weekday + 7) 7
      in addDays date (- diff))"

definition saturdayOnOrBefore :: "jsdate \<Rightarrow> jsdate" where
  "saturdayOnOrBefore date = weekdayOnOrBefore date 6"

text \<open>
  \<open>formatDate\<close> prints year, month and day as \<open>YYYY-MM-DD\<close>. The printed string is
  modelled by the triple of numbers it shows.
\<close>

type_synonym datestr = "int \<times> int \<times> int"

definition formatDate :: "jsdate \<Rightarrow> datestr" where
  "formatDate date = (getUTCFullYear date, getUTCMonth date + 1, getUTCDate date)"

text \<open>\<open>parseDate\<close> splits the string at the dashes and hands the three numbers on.\<close>

definition parseDate :: "datestr \<Rightarrow> jsdate" where
  "parseDate str = (case str of (y, m, d) \<Rightarrow> makeDate y m d)"

section \<open>Computus: Easter\<close>

definition easterSunday :: "int \<Rightarrow> jsdate" where
  "easterSunday year =
     (let a = js_rem year 19;
          b = floor_div year 100;
          c = js_rem year 100;
          d = floor_div b 4;
          e = js_rem b 4;
          f = floor_div (b + 8) 25;
          g = floor_div (b - f + 1) 3;
          h = js_rem (19 * a + b - d - g + 15) 30;
          i = floor_div c 4;
          k = js_rem c 4;
          l = js_rem (32 + 2 * e + 2 * i - h - k) 7;
          m = floor_div (a + 11 * h + 22 * l) 451;
          month = floor_div (h + l - 7 * m + 114) 31;
          day = js_rem (h + l - 7 * m + 114) 31 + 1
      in makeDate year month day)"

section \<open>Year cycle\<close>

definition getYearCycle :: "int \<Rightarrow> int" where
  "getYearCycle churchYearStartYear = js_rem churchYearStartYear 3 + 1"


definition getChurchYearStart :: "jsdate \<Rightarrow> int" where
  "getChurchYearStart d =
     (let year = getUTCFullYear d;
          advent1ThisYear = nearestSunday (makeDate year 11 30)
      in if d < advent1ThisYear then year - 1 else year)"

section \<open>Church calendar generation\<close>

text \<open>
  A calendar entry. The display name (a Finnish label carried along unchanged) is left
  out; entries are told apart by their slug.
\<close>

record entry =
  date :: jsdate
  slug :: string
  type :: string
  dateStr :: datestr

text \<open>The local helper \<open>add(date, slug, name, type)\<close>.\<close>

definition add :: "jsdate \<Rightarrow> string \<Rightarrow> string \<Rightarrow> entry" where
  "add d s t = \<lparr>date = d, slug = s, type = t, dateStr = formatDate d\<rparr>"

text \<open>Numbers inside template strings are printed in decimal.\<close>

fun decimal :: "nat \<Rightarrow> string" where
  "decimal n =
     (if n < 10 then [char_of (48 + n)] else decimal (n div 10) @ [char_of (48 + n mod 10)])"

declare decimal.simps [simp del]

definition numStr :: "int \<Rightarrow> string" where
  "numStr i = (if i < 0 then CHR ''-'' # decimal (nat (- i)) else decimal (nat i))"

definition addWeekdays :: "jsdate \<Rightarrow> string \<Rightarrow> entry list" where
  "addWeekdays sunday s = map (\<lambda>d. add (addDays sunday d) s ''weekday'') [1..6]"

definition sundayAfterInRange :: "jsdate \<Rightarrow> jsdate \<Rightarrow> jsdate \<Rightarrow> jsdate option" where
  "sundayAfterInRange after rangeStart rangeEnd =
     (let candidate = sundayOnOrAfter (addDays after 1)
      in if candidate \<ge> rangeStart \<and> candidate \<le> rangeEnd then Some candidate else None)"

text \<open>Advent: the 1st Advent Sunday, the weekdays after it, the 2nd to 4th Advent Sundays.\<close>

definition adventEntries :: "int \<Rightarrow> entry list" where
  "adventEntries startYear =
     (let advent1 = nearestSunday (makeDate startYear 11 30)
      in [add advent1 ''1-adventtisunnuntai'' ''sunday'']
         @ addWeekdays advent1 ''1-adventtisunnuntain-jalkeinen-viikko''
         @ [add (addDays advent1 7) ''2-adventtisunnuntai'' ''sunday'',
            add (addDays advent1 14) ''3-adventtisunnuntai'' ''sunday'',
            add (addDays advent1 21) ''4-adventtisunnuntai'' ''sunday''])"

definition christmasEntries :: "int \<Rightarrow> entry list" where
  "christmasEntries startYear =
     (let christmas = makeDate startYear 12 25
      in [add (makeDate startYear 12 24) ''jouluaatto'' ''feast'',
          add christmas ''joulupaiva'' ''feast'',
          add (makeDate startYear 12 26) ''tapaninpaiva'' ''feast'',
          add (makeDate startYear 12 27) ''apostoli-johanneksen-paiva'' ''feast'',
          add (makeDate startYear 12 28) ''viattomien-lasten-paiva'' ''feast'']
         @ (case sundayAfterInRange christmas (makeDate startYear 12 27)
                   (makeDate (startYear + 1) 1 2) of
              Some sun1christmas \<Rightarrow> [add sun1christmas ''1-sunnuntai-joulusta'' ''sunday'']
            | None \<Rightarrow> [])
         @ [add (makeDate startYear 12 31) ''uudenvuodenaatto'' ''feast'',
            add (makeDate (startYear + 1) 1 1) ''uudenvuodenpaiva'' ''feast'']
         @ (case sundayAfterInRange (makeDate (startYear + 1) 1 1)
                   (makeDate (startYear + 1) 1 2) (makeDate (startYear + 1) 1 5) of
              Some sun2christmas \<Rightarrow> [add sun2christmas ''2-sunnuntai-joulusta'' ''sunday'']
            | None \<Rightarrow> []))"

text \<open>
  The loop over the Sundays after Epiphany:
  \<open>while (epiphanySunday < septuagesima && epiphanyCount <= 6)\<close>.
\<close>

function epiphanySundays :: "jsdate \<Rightarrow> jsdate \<Rightarrow> int \<Rightarrow> entry list" where
  "epiphanySundays epiphanySunday septuagesima epiphanyCount =
     (if epiphanySunday < septuagesima \<and> epiphanyCount \<le> 6
      then add epiphanySunday (numStr epiphanyCount @ ''-sunnuntai-loppiaisesta'') ''sunday''
           # epiphanySundays (addDays epiphanySunday 7) septuagesima (epiphanyCount + 1)
      else [])"
  by pat_completeness auto
termination
  by (relation "measure (\<lambda>(s, t, c). nat (7 - c))") auto

declare epiphanySundays.simps [simp del]

definition epiphanyEntries :: "int \<Rightarrow> jsdate \<Rightarrow> entry list" where
  "epiphanyEntries startYear easter =
     (let epiphany = makeDate (startYear + 1) 1 6;
          septuagesima = addDays easter (- 63)
      in [add epiphany ''loppiainen'' ''feast'']
         @ epiphanySundays (sundayOnOrAfter (addDays epiphany 1)) septuagesima 1)"

definition preLentEntries :: "jsdate \<Rightarrow> entry list" where
  "preLentEntries easter =
     [add (addDays easter (- 63)) ''3-sunnuntai-ennen-paastonaikaa'' ''sunday'',
      add (addDays easter (- 56)) ''2-sunnuntai-ennen-paastonaikaa'' ''sunday'',
      add (addDays easter (- 49)) ''laskiaissunnuntai'' ''sunday'']"

definition lentEntries :: "jsdate \<Rightarrow> entry list" where
  "lentEntries easter =
     [add (addDays easter (- 46)) ''tuhkakeskiviikko'' ''weekday'']
     @ map (\<lambda>i. add (addDays easter (- 49 + i * 7))
                    (numStr i @ ''-paastonajan-sunnuntai'') ''sunday'') [1..5]"

definition holyWeekEntries :: "jsdate \<Rightarrow> entry list" where
  "holyWeekEntries easter =
     [add (addDays easter (- 7)) ''palmusunnuntai'' ''sunday'',
      add (addDays easter (- 6)) ''hiljaisen-viikon-maanantai'' ''weekday'',
      add (addDays easter (- 5)) ''hiljaisen-viikon-tiistai'' ''weekday'',
      add (addDays easter (- 4)) ''hiljaisen-viikon-keskiviikko'' ''weekday'',
      add (addDays easter (- 3)) ''kiirastorstai'' ''feast'',
      add (addDays easter (- 2)) ''pitkaperjantai'' ''feast'',
      add (addDays easter (- 2)) ''jeesuksen-kuolinhetki'' ''service'',
      add (addDays easter (- 2)) ''pitkaperjantain-ilta'' ''service'',
      add (addDays easter (- 1)) ''hiljainen-lauantai'' ''weekday'']"

definition easterEntries :: "jsdate \<Rightarrow> entry list" where
  "easterEntries easter =
     [add (addDays easter (- 1)) ''paasiaisyo'' ''service'',
      add easter ''paasiaispaiva'' ''feast'',
      add (addDays easter 1) ''2-paasiaispaiva'' ''feast'',
      add (addDays easter 2) ''paasiaisen-jalkeinen-tiistai'' ''weekday'',
      add (addDays easter 3) ''paasiaisen-jalkeinen-keskiviikko'' ''weekday'',
      add (addDays easter 4) ''paasiaisen-jalkeinen-torstai'' ''weekday'',
      add (addDays easter 5) ''paasiaisen-jalkeinen-perjantai'' ''weekday'',
      add (addDays easter 6) ''paasiaisen-jalkeinen-lauantai'' ''weekday'']
     @ map (\<lambda>i. add (addDays easter (i * 7))
                    (numStr i @ ''-sunnuntai-paasiaisesta'') ''sunday'') [1..6]"

definition pentecostEntries :: "jsdate \<Rightarrow> entry list" where
  "pentecostEntries easter =
     (let ascension = addDays easter 39;
          pentecost = addDays easter 49
      in [add ascension ''helatorstai'' ''feast'',
          add (addDays pentecost (- 1)) ''helluntaiaatto'' ''service'',
          add pentecost ''helluntaipaiva'' ''feast'']
         @ addWeekdays pentecost ''helluntain-jalkeinen-viikko-eli-helluntaiviikko''
         @ [add (addDays pentecost 7) ''pyhan-kolminaisuuden-paiva'' ''sunday''])"

text \<open>
  The loop collecting the Sundays after Pentecost with their running number:
  \<open>while (currentSunday <= tuomiosunnuntai)\<close>.
\<close>

function pentecostSundays :: "jsdate \<Rightarrow> jsdate \<Rightarrow> int \<Rightarrow> (jsdate \<times> int) list" where
  "pentecostSundays currentSunday tuomiosunnuntai sundayNumber =
     (if currentSunday \<le> tuomiosunnuntai
      then (currentSunday, sundayNumber)
           # pentecostSundays (addDays currentSunday 7) tuomiosunnuntai (sundayNumber + 1)
      else [])"
  by pat_completeness auto
termination
  by (relation "measure (\<lambda>(s, t, n). nat (t + 1 - s))")
    (auto simp: addDays_def setUTCDate_def getUTCDate_def DateFromTime_def MakeDay_def
      MonthFromTime_def DayWithinYear_def Let_def)

declare pentecostSundays.simps [simp del]

text \<open>The body of the loop that labels slot \<open>i\<close> of \<open>len\<close> slots.\<close>

definition pentecostSundayEntry :: "nat \<Rightarrow> nat \<Rightarrow> jsdate \<Rightarrow> entry" where
  "pentecostSundayEntry len i d =
     (let fromStart = int i + 2;
          fromEnd = int len - int i
      in if fromEnd = 1 then add d ''tuomiosunnuntai'' ''sunday''
         else if fromEnd = 2 then add d ''valvomisen-sunnuntai'' ''sunday''
         else if fromStart = 6 then add d ''apostolien-paiva'' ''sunday''
         else if fromStart = 8 then add d ''kirkastussunnuntai'' ''sunday''
         else if fromStart = 22 then add d ''reformaation-paiva'' ''sunday''
         else add d (numStr fromStart @ ''-sunnuntai-helluntaista'') ''sunday'')"

definition pentecostSundayEntries :: "int \<Rightarrow> jsdate \<Rightarrow> entry list" where
  "pentecostSundayEntries startYear easter =
     (let pentecost = addDays easter 49;
          nextAdvent1 = nearestSunday (makeDate (startYear + 1) 11 30);
          tuomiosunnuntai = addDays nextAdvent1 (- 7);
          ps = pentecostSundays (addDays pentecost 14) tuomiosunnuntai 2
      in map (\<lambda>i. pentecostSundayEntry (length ps) i (fst (ps ! i))) [0..<length ps])"

definition specialEntries :: "int \<Rightarrow> jsdate \<Rightarrow> entry list" where
  "specialEntries startYear easter =
     (let annunciation = makeDate (startYear + 1) 3 25;
          juhannuspaiva = saturdayOnOrBefore (makeDate (startYear + 1) 6 26);
          mikkelinpaiva = sundayOnOrAfter (makeDate (startYear + 1) 9 29);
          pyhainpaiva = saturdayOnOrBefore (makeDate (startYear + 1) 11 6)
      in [add (makeDate (startYear + 1) 2 2) ''kynttilanpaiva'' ''special'']
         @ (if annunciation < addDays easter (- 6) \<or> annunciation > addDays easter 7
            then [add annunciation ''marian-ilmestyspaiva'' ''special''] else [])
         @ (if juhannuspaiva \<ge> makeDate (startYear + 1) 6 20
            then [add juhannuspaiva ''juhannuspaiva'' ''special''] else [])
         @ (if mikkelinpaiva \<le> makeDate (startYear + 1) 10 5
            then [add mikkelinpaiva ''mikkelinpaiva'' ''special''] else [])
         @ (if pyhainpaiva \<ge> makeDate (startYear + 1) 10 31
            then [add pyhainpaiva ''pyhainpaiva'' ''special''] else [])
         @ [add (makeDate (startYear + 1) 1 19) ''pyhan-henrikin-muistopaiva'' ''special'',
            add (makeDate (startYear + 1) 12 6) ''itsenaisyyspaiva'' ''special'',
            add (makeDate (startYear + 1) 1 18) ''kansalliset-rukouspaivat'' ''special'',
            add (makeDate (startYear + 1) 10 24) ''kansalliset-rukouspaivat'' ''special''])"

text \<open>The entries in the order in which they are pushed, before the final sort.\<close>

definition generatedEntries :: "int \<Rightarrow> entry list" where
  "generatedEntries startYear =
     (let easter = easterSunday (startYear + 1)
      in adventEntries startYear
         @ christmasEntries startYear
         @ epiphanyEntries startYear easter
         @ preLentEntries easter
         @ lentEntries easter
         @ holyWeekEntries easter
         @ easterEntries easter
         @ pentecostEntries easter
         @ pentecostSundayEntries startYear easter
         @ specialEntries startYear easter)"

text \<open>
  \<open>entries.sort((a, b) => a.date - b.date)\<close>: the sort is stable, so entries of one
  date keep the order in which they were pushed.
\<close>

definition generateChurchYear :: "int \<Rightarrow> entry list" where
  "generateChurchYear startYear = sort_key date (generatedEntries startYear)"


section \<open>Date resolver\<close>

text \<open>
  A property of a returned object is absent (\<open>Undefined\<close>), \<open>null\<close>, or holds a value.
\<close>

datatype 'a jsval = Undefined | Null | Val 'a

text \<open>
  The reference record of a holy day, loaded once from \<open>all-days.json\<close> and looked up
  by slug. The data file is not part of the sources, so the lookup table is a parameter
  \<open>db\<close> of the resolver. Only the fields that the resolver copies as they are and the
  season are kept; readings, psalm, prayers, hymns and propers are left out.
\<close>

record dayData =
  d_season :: "string option"
  d_liturgicalColor :: "string option"
  d_description :: "string option"
  d_latinName :: "string option"

type_synonym daysBySlug = "string \<Rightarrow> dayData option"

definition getDayData :: "daysBySlug \<Rightarrow> string \<Rightarrow> dayData option" where
  "getDayData db s = db s"

text \<open>\<open>data?.field || null\<close>: a missing record, a missing field and the empty string give null.\<close>

definition orNull :: "dayData option \<Rightarrow> (dayData \<Rightarrow> string option) \<Rightarrow> string jsval" where
  "orNull data field =
     (case data of None \<Rightarrow> Null
      | Some r \<Rightarrow> (case field r of None \<Rightarrow> Null | Some v \<Rightarrow> if v = [] then Null else Val v))"

record enriched =
  e_slug :: string
  e_date :: datestr
  e_type :: string
  liturgicalColor :: "string jsval"
  description :: "string jsval"
  latinName :: "string jsval"

text \<open>
  \<open>enrichEntry\<close>: the year cycle only selects among the readings, which are left out.
\<close>

definition enrichEntry :: "daysBySlug \<Rightarrow> entry \<Rightarrow> int \<Rightarrow> enriched" where
  "enrichEntry db e yearCycle =
     (let data = getDayData db (slug e)
      in \<lparr>e_slug = slug e, e_date = dateStr e, e_type = type e,
          liturgicalColor = orNull data d_liturgicalColor,
          description = orNull data d_description,
          latinName = orNull data d_latinName\<rparr>)"

text \<open>The calendar cache: a map from start year to generated calendar, filled on a miss.\<close>

type_synonym calendarCache = "int \<rightharpoonup> entry list"

definition getCalendar :: "calendarCache \<Rightarrow> int \<Rightarrow> entry list \<times> calendarCache" where
  "getCalendar cache churchYearStart =
     (case cache churchYearStart of
        None \<Rightarrow> (let c = generateChurchYear churchYearStart
                 in (c, cache(churchYearStart \<mapsto> c)))
      | Some c \<Rightarrow> (c, cache))"

text \<open>\<open>priority[a.type] || 9\<close>\<close>

definition priority :: "string \<Rightarrow> int" where
  "priority t =
     (if t = ''feast'' then 1 else if t = ''special'' then 2 else if t = ''sunday'' then 3
      else if t = ''weekday'' then 4 else if t = ''service'' then 5 else 9)"

text \<open>A copy of the list, sorted (stably) by the priority of the entry type.\<close>

definition prioritizeEntries :: "entry list \<Rightarrow> entry list" where
  "prioritizeEntries entries = sort_key (\<lambda>e. priority (type e)) entries"

definition findPrecedingSunday :: "entry list \<Rightarrow> jsdate \<Rightarrow> entry option" where
  "findPrecedingSunday calendar d =
     fold (\<lambda>e best.
             if (type e = ''sunday'' \<or> type e = ''feast'') \<and> date e \<le> d
             then (case best of None \<Rightarrow> Some e
                   | Some b \<Rightarrow> if date e > date b then Some e else best)
             else best)
          calendar None"

fun startsWith :: "string \<Rightarrow> string \<Rightarrow> bool" where
  "startsWith s [] = True"
| "startsWith [] (c # cs) = False"
| "startsWith (x # xs) (c # cs) = (x = c \<and> startsWith xs cs)"

text \<open>\<open>s.includes(sub)\<close>\<close>

fun includes_str :: "string \<Rightarrow> string \<Rightarrow> bool" where
  "includes_str [] sub = (sub = [])"
| "includes_str (x # xs) sub = (startsWith (x # xs) sub \<or> includes_str xs sub)"

text \<open>The season label with a-umlauts (code unit 228).\<close>

definition paasiaisjakso :: string where
  "paasiaisjakso = ''P'' @ [char_of (228 :: nat), char_of (228 :: nat)] @ ''si''
                   @ [char_of (228 :: nat)] @ ''isjakso''"

definition getSeason :: "daysBySlug \<Rightarrow> entry \<Rightarrow> string jsval" where
  "getSeason db e =
     (case orNull (getDayData db (slug e)) d_season of
        Val v \<Rightarrow> Val v
      | _ \<Rightarrow>
         (let s = slug e
          in if includes_str s ''adventti'' \<or> includes_str s ''advent'' then Val ''Joulujakso''
             else if includes_str s ''joulu'' \<or> includes_str s ''christmas'' then Val ''Joulujakso''
             else if includes_str s ''loppiai'' then Val ''Joulujakso''
             else if includes_str s ''paasto'' \<or> includes_str s ''laskiai'' then Val paasiaisjakso
             else if includes_str s ''hiljai'' \<or> includes_str s ''kiiras'' \<or> includes_str s ''pitkap''
                     \<or> includes_str s ''palmu'' then Val paasiaisjakso
             else if includes_str s ''paasiai'' then Val paasiaisjakso
             else if includes_str s ''helluntai'' \<or> includes_str s ''kolminai''
                     \<or> includes_str s ''helatorstai'' then Val ''Helluntaijakso''
             else if includes_str s ''shel'' \<or> includes_str s ''helluntaista'' then Val ''Helluntaijakso''
             else Null))"

definition getDayOfWeekFi :: "jsdate \<Rightarrow> string" where
  "getDayOfWeekFi d =
     [''sunnuntai'', ''maanantai'', ''tiistai'', ''keskiviikko'', ''torstai'', ''perjantai'',
      ''lauantai''] ! nat (getUTCDay d)"

text \<open>The label of a church year, \<open>start\<close>-dash-\<open>start + 1\<close>, is kept as the pair of years.\<close>

record churchYearInfo =
  start :: int
  label :: "int \<times> int"
  yearCycle :: int

record resolvedDay =
  r_date :: datestr
  churchYear :: churchYearInfo
  holyDay :: "enriched jsval"
  precedingSunday :: "enriched jsval"
  additionalServices :: "enriched list jsval"
  r_dayOfWeek :: string
  season :: "string jsval"

text \<open>The argument of \<open>resolveDate\<close>: a \<open>Date\<close> object or a \<open>YYYY-MM-DD\<close> string.\<close>

datatype dateArg = DateObject jsdate | DateString datestr

text \<open>
  \<open>resolveDate\<close>, with the reference data as parameter and the calendar cache passed in
  and out. In the branch with matches the prioritized list is not empty, so its
  first element exists.
\<close>

definition resolveDate :: "daysBySlug \<Rightarrow> calendarCache \<Rightarrow> dateArg \<Rightarrow> resolvedDay \<times> calendarCache" where
  "resolveDate db cache arg =
     (let d = (case arg of DateString str \<Rightarrow> parseDate str | DateObject d0 \<Rightarrow> d0);
          ds = formatDate d;
          churchYearStart = getChurchYearStart d;
          cycle = getYearCycle churchYearStart;
          (calendar, cache') = getCalendar cache churchYearStart;
          info = \<lparr>start = churchYearStart, label = (churchYearStart, churchYearStart + 1),
                  yearCycle = cycle\<rparr>;
          matches = filter (\<lambda>e. dateStr e = ds) calendar
      in if length matches = 0
         then (let best = findPrecedingSunday calendar d
               in (\<lparr>r_date = ds, churchYear = info, holyDay = Null,
                    precedingSunday =
                      (case best of Some b \<Rightarrow> Val (enrichEntry db b cycle) | None \<Rightarrow> Null),
                    additionalServices = Undefined,
                    r_dayOfWeek = getDayOfWeekFi d,
                    season = (case best of Some b \<Rightarrow> getSeason db b | None \<Rightarrow> Null)\<rparr>,
                   cache'))
         else (let prioritized = prioritizeEntries matches;
                   primary = hd prioritized
               in (\<lparr>r_date = ds, churchYear = info,
                    holyDay = Val (enrichEntry db primary cycle),
                    precedingSunday = Undefined,
                    additionalServices = Val (map (\<lambda>e. enrichEntry db e cycle) (drop 1 prioritized)),
                    r_dayOfWeek = getDayOfWeekFi d,
                    season = getSeason db primary\<rparr>,
                   cache')))"

text \<open>
  A cache is valid when every stored calendar is the generated one. The empty cache is
  valid and \<open>getCalendar\<close> keeps caches valid.
\<close>

definition cacheValid :: "calendarCache \<Rightarrow> bool" where
  "cacheValid cache \<longleftrightarrow> (\<forall>y c. cache y = Some c \<longrightarrow> c = generateChurchYear y)"

section \<open>Predicates used to state the claims\<close>

text \<open>
  The Sundays after Epiphany are the entries whose slug contains
  \<open>sunnuntai-loppiaisesta\<close>; the repository's test selects them in the same way.
\<close>

definition isEpiphanySunday :: "entry \<Rightarrow> bool" where
  "isEpiphanySunday e = includes_str (slug e) ''sunnuntai-loppiaisesta''"

text \<open>The date a call of \<open>resolveDate\<close> works with: a string argument is parsed first.\<close>

definition dateOf :: "dateArg \<Rightarrow> jsdate" where
  "dateOf arg = (case arg of DateString str \<Rightarrow> parseDate str | DateObject d0 \<Rightarrow> d0)"


section \<open>Facts about the date arithmetic\<close>

lemma div_step:
  fixes a n :: int
  assumes n: "0 < n"
  shows "(a + 1) div n = a div n + (if (a + 1) mod n = 0 then 1 else 0)"
proof -
  define q where "q = a div n"
  define r where "r = a mod n"
  have e: "a = n * q + r" by (simp add: q_def r_def)
  have b: "0 \<le> r" "r < n" using n by (simp_all add: r_def)
  show ?thesis
  proof (cases "r + 1 < n")
    case True
    have s: "a + 1 = n * q + (r + 1)" using e by simp
    have "(a + 1) div n = q" by (rule int_div_pos_eq [OF s]) (use b True in auto)
    moreover have "(a + 1) mod n = r + 1" by (rule int_mod_pos_eq [OF s]) (use b True in auto)
    ultimately show ?thesis using b by (simp add: q_def)
  next
    case False
    then have rn: "r + 1 = n" using b by linarith
    have s: "a + 1 = n * (q + 1) + 0" using e rn by (simp add: algebra_simps)
    have "(a + 1) div n = q + 1" by (rule int_div_pos_eq [OF s]) (use n in auto)
    moreover have "(a + 1) mod n = 0" by (rule int_mod_pos_eq [OF s]) (use n in auto)
    ultimately show ?thesis by (simp add: q_def)
  qed
qed

lemma mod_shift: "(y - n * k) mod n = y mod n" for y n k :: int
proof -
  have "y - n * k = y + n * (- k)" by simp
  then show ?thesis by (metis mod_mult_self2)
qed

lemma mod_400_100: "y mod 400 = 0 \<Longrightarrow> y mod 100 = 0" for y :: int
proof -
  assume "y mod 400 = 0"
  then have "400 dvd y" by (simp add: mod_eq_0_iff_dvd)
  moreover have "(100::int) dvd 400" by simp
  ultimately have "100 dvd y" by (rule dvd_trans [rotated])
  then show ?thesis by (simp add: mod_eq_0_iff_dvd)
qed

lemma mod_100_4: "y mod 100 = 0 \<Longrightarrow> y mod 4 = 0" for y :: int
proof -
  assume "y mod 100 = 0"
  then have "100 dvd y" by (simp add: mod_eq_0_iff_dvd)
  moreover have "(4::int) dvd 100" by simp
  ultimately have "4 dvd y" by (rule dvd_trans [rotated])
  then show ?thesis by (simp add: mod_eq_0_iff_dvd)
qed

lemma DayFromYear_step: "DayFromYear (y + 1) = DayFromYear y + 365 + InLeapYear y"
proof -
  have a4: "(y - 1968) div 4 = (y - 1969) div 4 + (if y mod 4 = 0 then 1 else 0)"
    using div_step [of 4 "y - 1969"] mod_shift [of y 4 492] by simp
  have a100: "(y - 1900) div 100 = (y - 1901) div 100 + (if y mod 100 = 0 then 1 else 0)"
    using div_step [of 100 "y - 1901"] mod_shift [of y 100 19] by simp
  have a400: "(y - 1600) div 400 = (y - 1601) div 400 + (if y mod 400 = 0 then 1 else 0)"
    using div_step [of 400 "y - 1601"] mod_shift [of y 400 4] by simp
  have "DayFromYear (y + 1) =
      365 * (y - 1969) + (y - 1968) div 4 - (y - 1900) div 100 + (y - 1600) div 400"
    by (simp add: DayFromYear_def)
  also have "\<dots> = DayFromYear y + 365 + InLeapYear y"
    unfolding a4 a100 a400 DayFromYear_def InLeapYear_def
    using mod_400_100 [of y] mod_100_4 [of y] by auto
  finally show ?thesis .
qed


lemma DayFromYear_decomp:
  assumes "0 \<le> b" "b \<le> 3" "0 \<le> c" "c \<le> 24" "0 \<le> e" "e \<le> 3"
  shows "DayFromYear (1601 + 400 * a + 100 * b + 4 * c + e) =
         146097 * a + 36524 * b + 1461 * c + 365 * e - 134774"
proof -
  have d4: "(1601 + 400 * a + 100 * b + 4 * c + e - 1969) div 4 = 100 * a + 25 * b + c - 92"
    by (rule int_div_pos_eq [where r = e]) (use assms in auto)
  have d100: "(1601 + 400 * a + 100 * b + 4 * c + e - 1901) div 100 = 4 * a + b - 3"
    by (rule int_div_pos_eq [where r = "4 * c + e"]) (use assms in auto)
  have d400: "(1601 + 400 * a + 100 * b + 4 * c + e - 1601) div 400 = a"
    by (rule int_div_pos_eq [where r = "100 * b + 4 * c + e"]) (use assms in auto)
  show ?thesis unfolding DayFromYear_def d4 d100 d400 by simp
qed

lemma InLeapYear_decomp:
  assumes "0 \<le> b" "b \<le> 3" "0 \<le> c" "c \<le> 24" "0 \<le> e" "e \<le> 3"
  shows "InLeapYear (1601 + 400 * a + 100 * b + 4 * c + e) =
         (if e = 3 \<and> (c < 24 \<or> b = 3) then 1 else 0)"
proof -
  let ?y = "1601 + 400 * a + 100 * b + 4 * c + e"
  have m4: "?y mod 4 = (if e = 3 then 0 else e + 1)"
  proof (cases "e = 3")
    case True
    have "?y mod 4 = 0"
      by (rule int_mod_pos_eq [where q = "401 + 100 * a + 25 * b + c"]) (use True in auto)
    then show ?thesis using True by simp
  next
    case False
    have "?y mod 4 = e + 1"
      by (rule int_mod_pos_eq [where q = "400 + 100 * a + 25 * b + c"]) (use False assms in auto)
    then show ?thesis using False by simp
  qed
  have m100: "?y mod 100 = (if c = 24 \<and> e = 3 then 0 else 4 * c + e + 1)"
  proof (cases "c = 24 \<and> e = 3")
    case True
    have "?y mod 100 = 0"
      by (rule int_mod_pos_eq [where q = "17 + 4 * a + b"]) (use True in auto)
    then show ?thesis using True by simp
  next
    case False
    have "?y mod 100 = 4 * c + e + 1"
      by (rule int_mod_pos_eq [where q = "16 + 4 * a + b"]) (use False assms in auto)
    then show ?thesis using False by simp
  qed
  have m400: "?y mod 400 = (if b = 3 \<and> c = 24 \<and> e = 3 then 0 else 100 * b + 4 * c + e + 1)"
  proof (cases "b = 3 \<and> c = 24 \<and> e = 3")
    case True
    have "?y mod 400 = 0"
      by (rule int_mod_pos_eq [where q = "5 + a"]) (use True in auto)
    then show ?thesis using True by simp
  next
    case False
    have "?y mod 400 = 100 * b + 4 * c + e + 1"
      by (rule int_mod_pos_eq [where q = "4 + a"]) (use False assms in auto)
    then show ?thesis using False by simp
  qed
  show ?thesis unfolding InLeapYear_def m4 m100 m400 using assms by auto
qed

lemma min3_div:
  fixes r n :: int
  assumes "0 < n" "0 \<le> r"
  shows "0 \<le> min 3 (r div n)" "min 3 (r div n) \<le> 3" "n * min 3 (r div n) \<le> r"
    "min 3 (r div n) < 3 \<Longrightarrow> r < n * (min 3 (r div n) + 1)"
proof -
  have q: "0 \<le> r div n" using assms by (simp add: pos_imp_zdiv_nonneg_iff)
  have e: "r = n * (r div n) + r mod n" by simp
  have m: "0 \<le> r mod n" "r mod n < n" using assms by simp_all
  show "0 \<le> min 3 (r div n)" using q by simp
  show "min 3 (r div n) \<le> 3" by simp
  have "n * min 3 (r div n) \<le> n * (r div n)" using assms by (intro mult_left_mono) auto
  then show "n * min 3 (r div n) \<le> r" using e m by linarith
  assume "min 3 (r div n) < 3"
  then have "min 3 (r div n) = r div n" by simp
  moreover have "r < n * (r div n) + n" using e m by linarith
  ultimately show "r < n * (min 3 (r div n) + 1)" by (simp add: algebra_simps)
qed

lemma YearFromTime_decomp:
  obtains a b c e w where
    "0 \<le> b" "b \<le> 3" "0 \<le> c" "c \<le> 24" "0 \<le> e" "e \<le> 3"
    "YearFromTime d = 1601 + 400 * a + 100 * b + 4 * c + e"
    "d = 146097 * a + 36524 * b + 1461 * c + 365 * e - 134774 + w"
    "0 \<le> w" "w < 365 + (if e = 3 \<and> (c < 24 \<or> b = 3) then 1 else 0)"
proof -
  define z where "z = d + 134774"
  define a where "a = z div 146097"
  define r where "r = z mod 146097"
  define b where "b = min 3 (r div 36524)"
  define r2 where "r2 = r - 36524 * b"
  define c where "c = r2 div 1461"
  define r3 where "r3 = r2 mod 1461"
  define e where "e = min 3 (r3 div 365)"
  have y: "YearFromTime d = 1601 + 400 * a + 100 * b + 4 * c + e"
    by (simp add: YearFromTime_def Let_def z_def a_def r_def b_def r2_def c_def r3_def e_def)
  have z: "z = 146097 * a + r" by (simp add: a_def r_def)
  have r: "0 \<le> r" "r < 146097" by (simp_all add: r_def)
  have b: "0 \<le> b" "b \<le> 3" "36524 * b \<le> r" "b < 3 \<Longrightarrow> r < 36524 * (b + 1)"
    unfolding b_def using min3_div [of 36524 r] r by simp_all
  have r2: "0 \<le> r2" "r2 \<le> 36524" "b < 3 \<Longrightarrow> r2 < 36524"
    using b r by (cases "b < 3"; simp add: r2_def)+
  have r2e: "r2 = 1461 * c + r3" by (simp add: c_def r3_def)
  have r3: "0 \<le> r3" "r3 < 1461" by (simp_all add: r3_def)
  have c: "0 \<le> c" using r2 by (simp add: c_def pos_imp_zdiv_nonneg_iff)
  have c24: "c \<le> 24" using r2 r2e r3 by linarith
  have e: "0 \<le> e" "e \<le> 3" "365 * e \<le> r3" "e < 3 \<Longrightarrow> r3 < 365 * (e + 1)"
    unfolding e_def using min3_div [of 365 r3] r3 by simp_all
  have dd: "d = 146097 * a + 36524 * b + 1461 * c + 365 * e - 134774 + (r3 - 365 * e)"
    using z r2e by (simp add: z_def r2_def)
  have w: "r3 - 365 * e < 365 + (if e = 3 \<and> (c < 24 \<or> b = 3) then 1 else 0)"
  proof (cases "e < 3")
    case True
    then have "r3 - 365 * e < 365" using e(4) by simp
    then show ?thesis by simp
  next
    case False
    then have e3: "e = 3" using e(2) by simp
    show ?thesis
    proof (cases "c < 24 \<or> b = 3")
      case True
      then show ?thesis using e3 r3 by simp
    next
      case False
      then have "c = 24" "b < 3" using c24 b(2) by simp_all
      then have "r3 < 1460" using r2(3) r2e by simp
      then show ?thesis using e3 by simp
    qed
  qed
  show ?thesis
    by (rule that [OF b(1,2) c c24 e(1,2) y dd _ w]) (use e in simp)
qed

lemma YearFromTime_bounds:
  "DayFromYear (YearFromTime d) \<le> d" "d < DayFromYear (YearFromTime d + 1)"
proof -
  obtain a b c e w where h: "0 \<le> b" "b \<le> 3" "0 \<le> c" "c \<le> 24" "0 \<le> e" "e \<le> 3"
    and y: "YearFromTime d = 1601 + 400 * a + 100 * b + 4 * c + e"
    and d: "d = 146097 * a + 36524 * b + 1461 * c + 365 * e - 134774 + w"
    and w: "0 \<le> w" "w < 365 + (if e = 3 \<and> (c < 24 \<or> b = 3) then 1 else 0)"
    by (rule YearFromTime_decomp)
  have D: "DayFromYear (YearFromTime d) = d - w"
    unfolding y DayFromYear_decomp [OF h] using d by simp
  have L: "InLeapYear (YearFromTime d) = (if e = 3 \<and> (c < 24 \<or> b = 3) then 1 else 0)"
    unfolding y by (rule InLeapYear_decomp [OF h])
  show "DayFromYear (YearFromTime d) \<le> d" using D w by simp
  show "d < DayFromYear (YearFromTime d + 1)"
    unfolding DayFromYear_step D L using w by simp
qed


lemma InLeapYear_range: "InLeapYear y = 0 \<or> InLeapYear y = 1"
  by (simp add: InLeapYear_def)

lemma DayFromYear_mono: "y \<le> y' \<Longrightarrow> DayFromYear y \<le> DayFromYear y'"
proof (induction y' rule: int_ge_induct)
  case base
  show ?case by simp
next
  case (step i)
  have "DayFromYear i \<le> DayFromYear (i + 1)"
    unfolding DayFromYear_step using InLeapYear_range [of i] by auto
  with step show ?case by simp
qed

lemma YearFromTime_unique:
  assumes "DayFromYear y \<le> d" "d < DayFromYear (y + 1)"
  shows "YearFromTime d = y"
proof (rule ccontr)
  assume ne: "YearFromTime d \<noteq> y"
  show False
  proof (cases "YearFromTime d < y")
    case True
    then have "DayFromYear (YearFromTime d + 1) \<le> DayFromYear y"
      by (intro DayFromYear_mono) simp
    then show False using YearFromTime_bounds(2) [of d] assms(1) by simp
  next
    case False
    then have "DayFromYear (y + 1) \<le> DayFromYear (YearFromTime d)"
      using ne by (intro DayFromYear_mono) simp
    then show False using YearFromTime_bounds(1) [of d] assms(2) by simp
  qed
qed

lemma DayWithinYear_range:
  "0 \<le> DayWithinYear d" "DayWithinYear d < 365 + InLeapYear (YearFromTime d)"
  using YearFromTime_bounds [of d] by (simp_all add: DayWithinYear_def DayFromYear_step)

lemma MonthFromTime_range: "0 \<le> MonthFromTime d" "MonthFromTime d \<le> 11"
  by (simp_all add: MonthFromTime_def Let_def)

lemma MakeDay_month:
  "0 \<le> m \<Longrightarrow> m \<le> 11 \<Longrightarrow> MakeDay y m dt = DayFromYear y + monthStart m (InLeapYear y) + dt - 1"
  by (simp add: MakeDay_def Let_def)

lemma setUTCDate_eq: "setUTCDate d dt = d - DateFromTime d + dt"
  unfolding setUTCDate_def MakeDay_month [OF MonthFromTime_range]
  by (simp add: DateFromTime_def DayWithinYear_def)

lemma addDays_eq [simp]: "addDays d n = d + n"
  by (simp add: addDays_def setUTCDate_eq getUTCDate_def)

lemma MakeDay_roundtrip: "MakeDay (YearFromTime d) (MonthFromTime d) (DateFromTime d) = d"
  unfolding MakeDay_month [OF MonthFromTime_range]
  by (simp add: DateFromTime_def DayWithinYear_def)

lemma formatDate_inj: "formatDate d = formatDate d' \<Longrightarrow> d = d'"
proof -
  assume "formatDate d = formatDate d'"
  then have "YearFromTime d = YearFromTime d'" "MonthFromTime d = MonthFromTime d'"
    "DateFromTime d = DateFromTime d'"
    by (simp_all add: formatDate_def getUTCFullYear_def getUTCMonth_def getUTCDate_def)
  then have "MakeDay (YearFromTime d) (MonthFromTime d) (DateFromTime d) =
      MakeDay (YearFromTime d') (MonthFromTime d') (DateFromTime d')"
    by (simp only:)
  then show ?thesis by (simp only: MakeDay_roundtrip)
qed

lemma formatDate_eq_iff [simp]: "formatDate d = formatDate d' \<longleftrightarrow> d = d'"
  using formatDate_inj by auto

text \<open>Outside the years 0 to 99 a date is the start of its year plus the day within the year.\<close>

lemma makeDate_eq:
  assumes "100 \<le> y" "1 \<le> m" "m \<le> 12"
  shows "makeDate y m dt = DayFromYear y + monthStart (m - 1) (InLeapYear y) + dt - 1"
  using assms by (simp add: makeDate_def DateUTC_def MakeDay_month)

lemma YearFromTime_in_year:
  assumes "0 \<le> k" "k < 365 + InLeapYear y"
  shows "YearFromTime (DayFromYear y + k) = y"
  by (rule YearFromTime_unique) (use assms in \<open>simp_all add: DayFromYear_step\<close>)

lemma dayOfWeek_range: "0 \<le> dayOfWeek d" "dayOfWeek d \<le> 6"
  by (simp_all add: dayOfWeek_def getUTCDay_def)

lemma dayOfWeek_add7 [simp]: "dayOfWeek (d + 7) = dayOfWeek d"
  unfolding dayOfWeek_def getUTCDay_def by presburger

lemma nearestSunday_cases:
  "nearestSunday d = (if dayOfWeek d \<le> 3 then d - dayOfWeek d else d + (7 - dayOfWeek d))"
  using dayOfWeek_range [of d] by (simp add: nearestSunday_def Let_def)

lemma nearestSunday_is_sunday: "dayOfWeek (nearestSunday d) = 0"
  unfolding nearestSunday_cases dayOfWeek_def getUTCDay_def by presburger

lemma nearestSunday_near: "d - 3 \<le> nearestSunday d" "nearestSunday d \<le> d + 3"
  using dayOfWeek_range [of d] by (auto simp: nearestSunday_cases)


lemma js_rem_nonneg: "0 \<le> a \<Longrightarrow> 0 < n \<Longrightarrow> js_rem a n = a mod n"
  by (cases "a = 0") (simp_all add: js_rem_def)

lemma div_round_up:
  fixes y n :: int
  assumes n: "0 < n"
  shows "(y + (n - 1)) div n = y div n + (if y mod n = 0 then 0 else 1)"
proof -
  define q where "q = y div n"
  define r where "r = y mod n"
  have e: "y = n * q + r" by (simp add: q_def r_def)
  have b: "0 \<le> r" "r < n" using n by (simp_all add: r_def)
  show ?thesis
  proof (cases "r = 0")
    case True
    have s: "y + (n - 1) = n * q + (n - 1)" using e True by simp
    have "(y + (n - 1)) div n = q" by (rule int_div_pos_eq [OF s]) (use n in auto)
    then show ?thesis using True by (simp add: q_def r_def)
  next
    case False
    have s: "y + (n - 1) = n * (q + 1) + (r - 1)" using e by (simp add: algebra_simps)
    have "(y + (n - 1)) div n = q + 1" by (rule int_div_pos_eq [OF s]) (use b False in auto)
    then show ?thesis using False by (simp add: q_def r_def)
  qed
qed

lemma div_shift: "(y - n * k) div n = y div n - k" if "n \<noteq> 0" for y n k :: int
proof -
  have "y - n * k = y + n * (- k)" by simp
  then show ?thesis using that by (metis div_mult_self2 add.commute uminus_add_conv_diff add.inverse_inverse diff_minus_eq_add)
qed

lemma DayFromYear_closed:
  "DayFromYear y + InLeapYear y = 365 * y + y div 4 - y div 100 + y div 400 - 719527"
proof -
  have a4: "(y - 1969) div 4 = y div 4 + (if y mod 4 = 0 then 0 else 1) - 493"
    using div_round_up [of 4 y] div_shift [of 4 "y + 3" 493] by simp
  have a100: "(y - 1901) div 100 = y div 100 + (if y mod 100 = 0 then 0 else 1) - 20"
    using div_round_up [of 100 y] div_shift [of 100 "y + 99" 20] by simp
  have a400: "(y - 1601) div 400 = y div 400 + (if y mod 400 = 0 then 0 else 1) - 5"
    using div_round_up [of 400 y] div_shift [of 400 "y + 399" 5] by simp
  show ?thesis
    unfolding DayFromYear_def InLeapYear_def a4 a100 a400
    using mod_400_100 [of y] mod_100_4 [of y] by auto
qed


lemma makeDate_day_shift: "makeDate y m (dt + n) = makeDate y m dt + n"
  by (simp add: makeDate_def DateUTC_def MakeDay_def Let_def)

lemma makeDate_april_march: "makeDate y 4 (n - 9) = makeDate y 3 (22 + n)"
  by (simp add: makeDate_def DateUTC_def MakeDay_def Let_def monthStart_def)

lemma easterSunday_decomp:
  assumes y0: "0 \<le> y"
  obtains h l m where "0 \<le> h" "h \<le> 29" "0 \<le> l" "l \<le> 6"
    "0 \<le> h + l - 7 * m" "h + l - 7 * m \<le> 34"
    "l = (32 + 2 * (y div 100 mod 4) + 2 * (y mod 100 div 4) - h - y mod 100 mod 4) mod 7"
    "easterSunday y = makeDate y 3 (22 + (h + l - 7 * m))"
proof -
  define a where "a = js_rem y 19"
  define b where "b = floor_div y 100"
  define c where "c = js_rem y 100"
  define d where "d = floor_div b 4"
  define e where "e = js_rem b 4"
  define f where "f = floor_div (b + 8) 25"
  define g where "g = floor_div (b - f + 1) 3"
  define h where "h = js_rem (19 * a + b - d - g + 15) 30"
  define i where "i = floor_div c 4"
  define k where "k = js_rem c 4"
  define l where "l = js_rem (32 + 2 * e + 2 * i - h - k) 7"
  define m where "m = floor_div (a + 11 * h + 22 * l) 451"
  define month where "month = floor_div (h + l - 7 * m + 114) 31"
  define day where "day = js_rem (h + l - 7 * m + 114) 31 + 1"
  have E: "easterSunday y = makeDate y month day"
    unfolding easterSunday_def Let_def day_def month_def m_def l_def k_def i_def h_def g_def
      f_def e_def d_def c_def b_def a_def ..
  have a: "a = y mod 19" "0 \<le> a" "a \<le> 18" using y0 by (simp_all add: a_def js_rem_nonneg)
  have b: "b = y div 100" "0 \<le> b" using y0 by (simp_all add: b_def floor_div_def pos_imp_zdiv_nonneg_iff)
  have c: "c = y mod 100" "0 \<le> c" using y0 by (simp_all add: c_def js_rem_nonneg)
  have d: "4 * d \<le> b"
  proof -
    have "b = 4 * (b div 4) + b mod 4" by simp
    moreover have "0 \<le> b mod 4" by simp
    ultimately show ?thesis unfolding d_def floor_div_def by linarith
  qed
  have e: "e = b mod 4" "0 \<le> e" "e \<le> 3" using b by (simp_all add: e_def js_rem_nonneg)
  have f: "0 \<le> f" using b by (simp add: f_def floor_div_def pos_imp_zdiv_nonneg_iff)
  have g: "3 * g \<le> b - f + 1"
  proof -
    have "b - f + 1 = 3 * ((b - f + 1) div 3) + (b - f + 1) mod 3" by simp
    moreover have "0 \<le> (b - f + 1) mod 3" by simp
    ultimately show ?thesis unfolding g_def floor_div_def by linarith
  qed
  have X1: "0 \<le> 19 * a + b - d - g + 15" using a b d f g by linarith
  have h: "0 \<le> h" "h \<le> 29" using X1 by (simp_all add: h_def js_rem_nonneg)
  have i: "i = c div 4" "0 \<le> i" using c by (simp_all add: i_def floor_div_def pos_imp_zdiv_nonneg_iff)
  have k: "k = c mod 4" "0 \<le> k" "k \<le> 3" using c by (simp_all add: k_def js_rem_nonneg)
  have X2: "0 \<le> 32 + 2 * e + 2 * i - h - k" using e i h k by linarith
  have l: "l = (32 + 2 * e + 2 * i - h - k) mod 7" "0 \<le> l" "l \<le> 6"
    using X2 by (simp_all add: l_def js_rem_nonneg)
  have S: "0 \<le> a + 11 * h + 22 * l" "a + 11 * h + 22 * l < 902" using a h l by linarith+
  have m: "m = (if 451 \<le> a + 11 * h + 22 * l then 1 else 0)"
  proof (cases "451 \<le> a + 11 * h + 22 * l")
    case True
    have "(a + 11 * h + 22 * l) div 451 = 1"
      by (rule int_div_pos_eq [where r = "a + 11 * h + 22 * l - 451"]) (use True S in auto)
    then show ?thesis using True by (simp add: m_def floor_div_def)
  next
    case False
    then have "(a + 11 * h + 22 * l) div 451 = 0" using S by simp
    then show ?thesis using False by (simp add: m_def floor_div_def)
  qed
  define N where "N = h + l - 7 * m"
  have N: "0 \<le> N" "N \<le> 34" using m a h l by (auto simp: N_def split: if_splits)
  have md: "makeDate y month day = makeDate y 3 (22 + N)"
  proof (cases "N \<le> 9")
    case True
    have "(N + 114) div 31 = 3" by (rule int_div_pos_eq [where r = "N + 21"]) (use True N in auto)
    moreover have "(N + 114) mod 31 = N + 21"
      by (rule int_mod_pos_eq [where q = 3]) (use True N in auto)
    ultimately have "month = 3" "day = 22 + N"
      using N by (simp_all add: month_def day_def floor_div_def js_rem_nonneg N_def)
    then show ?thesis by simp
  next
    case False
    have "(N + 114) div 31 = 4" by (rule int_div_pos_eq [where r = "N - 10"]) (use False N in auto)
    moreover have "(N + 114) mod 31 = N - 10"
      by (rule int_mod_pos_eq [where q = 4]) (use False N in auto)
    ultimately have "month = 4" "day = N - 9"
      using N by (simp_all add: month_def day_def floor_div_def js_rem_nonneg N_def)
    then show ?thesis by (simp add: makeDate_april_march)
  qed
  show ?thesis
  proof (rule that [of h l m])
    show "l = (32 + 2 * (y div 100 mod 4) + 2 * (y mod 100 div 4) - h - y mod 100 mod 4) mod 7"
      using l(1) e(1) i(1) k(1) b(1) c(1) by simp
    show "easterSunday y = makeDate y 3 (22 + (h + l - 7 * m))" using E md by (simp add: N_def)
  qed (use h l N in \<open>simp_all add: N_def\<close>)
qed

lemma easterSunday_range:
  assumes "0 \<le> y"
  shows "makeDate y 3 22 \<le> easterSunday y" "easterSunday y \<le> makeDate y 4 25"
proof -
  obtain h l m where N: "0 \<le> h + l - 7 * m" "h + l - 7 * m \<le> 34"
    and E: "easterSunday y = makeDate y 3 (22 + (h + l - 7 * m))"
    using easterSunday_decomp [OF assms] by metis
  have "makeDate y 4 25 = makeDate y 3 22 + 34"
    using makeDate_april_march [of y 34] makeDate_day_shift [of y 3 22 34] by simp
  moreover have "easterSunday y = makeDate y 3 22 + (h + l - 7 * m)"
    unfolding E by (rule makeDate_day_shift)
  ultimately show "makeDate y 3 22 \<le> easterSunday y" "easterSunday y \<le> makeDate y 4 25"
    using N by simp_all
qed

lemma easterSunday_is_sunday:
  assumes y: "100 \<le> y"
  shows "dayOfWeek (easterSunday y) = 0"
proof -
  define b where "b = y div 100"
  define c where "c = y mod 100"
  define d where "d = b div 4"
  define e where "e = b mod 4"
  define i where "i = c div 4"
  define k where "k = c mod 4"
  have y0: "0 \<le> y" using y by simp
  obtain h l m where
    l: "l = (32 + 2 * (y div 100 mod 4) + 2 * (y mod 100 div 4) - h - y mod 100 mod 4) mod 7"
    and E: "easterSunday y = makeDate y 3 (22 + (h + l - 7 * m))"
    using easterSunday_decomp [OF y0] by metis
  define q where "q = (32 + 2 * e + 2 * i - h - k) div 7"
  have "32 + 2 * e + 2 * i - h - k = 7 * q + l"
    unfolding l q_def e_def i_def k_def b_def c_def by simp
  then have lq: "l = 32 + 2 * e + 2 * i - h - k - 7 * q" by simp
  have yb: "y = 100 * b + c" by (simp add: b_def c_def)
  have bd: "b = 4 * d + e" by (simp add: d_def e_def)
  have ci: "c = 4 * i + k" by (simp add: i_def k_def)
  have c4: "0 \<le> k" "k < 4" by (simp_all add: k_def)
  have y4: "y div 4 = 25 * b + i"
    by (rule int_div_pos_eq [where r = k]) (use yb ci c4 in auto)
  have y100: "y div 100 = b" by (simp add: b_def)
  have y400: "y div 400 = d"
    using zdiv_zmult2_eq [of 100 y 4] by (simp add: b_def d_def)
  have "easterSunday y = DayFromYear y + InLeapYear y + 80 + (h + l - 7 * m)"
    unfolding E using y by (simp add: makeDate_eq monthStart_def)
  also have "\<dots> = 365 * y + y div 4 - y div 100 + y div 400 - 719527 + 80 + (h + l - 7 * m)"
    by (simp only: DayFromYear_closed)
  also have "\<dots> = 365 * y + (25 * b + i) - b + d - 719527 + 80 + (h + l - 7 * m)"
    by (simp only: y4 y400 y100)
  also have "\<dots> = 7 * (20871 * d + 5218 * e + 209 * i + 52 * k - q - m - 102773) - 4"
    unfolding yb bd ci lq by simp
  finally have F: "easterSunday y + 4 = 7 * (20871 * d + 5218 * e + 209 * i + 52 * k - q - m - 102773)"
    by simp
  have "(easterSunday y + 4) mod 7 = 0" unfolding F by (rule mod_mult_self1_is_0)
  then show ?thesis unfolding dayOfWeek_def getUTCDay_def .
qed

section \<open>Facts about the generated calendar\<close>

lemma date_add [simp]: "date (add d s t) = d"
  and slug_add [simp]: "slug (add d s t) = s"
  and type_add [simp]: "type (add d s t) = t"
  and dateStr_add [simp]: "dateStr (add d s t) = formatDate d"
  by (simp_all add: add_def)

lemma set_generateChurchYear: "set (generateChurchYear Y) = set (generatedEntries Y)"
  by (simp add: generateChurchYear_def)

lemma sundayOnOrAfter_cases:
  "sundayOnOrAfter d = (if dayOfWeek d = 0 then d else d + (7 - dayOfWeek d))"
  by (simp add: sundayOnOrAfter_def Let_def)

lemma sundayOnOrAfter_is_sunday: "dayOfWeek (sundayOnOrAfter d) = 0"
  unfolding sundayOnOrAfter_cases dayOfWeek_def getUTCDay_def by presburger

lemma sundayOnOrAfter_near: "d \<le> sundayOnOrAfter d" "sundayOnOrAfter d \<le> d + 6"
  using dayOfWeek_range [of d] by (auto simp: sundayOnOrAfter_cases)

lemma epiphanySundays_unfold:
  "epiphanySundays s t c =
     (if s < t \<and> c \<le> 6
      then add s (numStr c @ ''-sunnuntai-loppiaisesta'') ''sunday'' # epiphanySundays (s + 7) t (c + 1)
      else [])"
  by (subst epiphanySundays.simps) simp

lemma epiphanySundays_length: "length (epiphanySundays s t c) \<le> nat (7 - c)"
proof (induction s t c rule: epiphanySundays.induct)
  case (1 s t c)
  show ?case
  proof (cases "s < t \<and> c \<le> 6")
    case True
    then have "length (epiphanySundays (addDays s 7) t (c + 1)) \<le> nat (7 - (c + 1))"
      using 1 by simp
    moreover have "nat (7 - c) = Suc (nat (7 - (c + 1)))" using True by arith
    ultimately show ?thesis using True by (subst epiphanySundays_unfold) simp
  next
    case False
    then have "epiphanySundays s t c = []" by (subst epiphanySundays_unfold) simp
    then show ?thesis by simp
  qed
qed

lemma epiphanySundays_nonempty: "s < t \<Longrightarrow> c \<le> 6 \<Longrightarrow> epiphanySundays s t c \<noteq> []"
  by (subst epiphanySundays_unfold) simp

lemma epiphanySundays_nth:
  "i < length (epiphanySundays s t c) \<Longrightarrow>
   epiphanySundays s t c ! i =
     add (s + 7 * int i) (numStr (c + int i) @ ''-sunnuntai-loppiaisesta'') ''sunday''"
proof (induction s t c arbitrary: i rule: epiphanySundays.induct)
  case (1 s t c)
  show ?case
  proof (cases "s < t \<and> c \<le> 6")
    case True
    note U = epiphanySundays_unfold [of s t c]
    show ?thesis
    proof (cases i)
      case 0
      then show ?thesis using True by (subst U) simp
    next
      case (Suc j)
      then have "j < length (epiphanySundays (addDays s 7) t (c + 1))"
        using "1.prems" True by (subst (asm) U) simp
      then have "epiphanySundays (addDays s 7) t (c + 1) ! j =
          add (addDays s 7 + 7 * int j) (numStr (c + 1 + int j) @ ''-sunnuntai-loppiaisesta'') ''sunday''"
        using "1.IH" True by blast
      then show ?thesis using True Suc by (subst U) (simp add: algebra_simps)
    qed
  next
    case False
    then have "epiphanySundays s t c = []" by (subst epiphanySundays_unfold) simp
    then show ?thesis using "1.prems" by simp
  qed
qed

lemma epiphanySundays_dates:
  "e \<in> set (epiphanySundays s t c) \<Longrightarrow> s \<le> date e \<and> date e < t"
proof (induction s t c rule: epiphanySundays.induct)
  case (1 s t c)
  show ?case
  proof (cases "s < t \<and> c \<le> 6")
    case True
    from "1.prems" have "e = add s (numStr c @ ''-sunnuntai-loppiaisesta'') ''sunday''
        \<or> e \<in> set (epiphanySundays (addDays s 7) t (c + 1))"
      using True by (subst (asm) epiphanySundays_unfold) auto
    then show ?thesis
    proof
      assume "e = add s (numStr c @ ''-sunnuntai-loppiaisesta'') ''sunday''"
      then show ?thesis using True by (simp add: add_def)
    next
      assume "e \<in> set (epiphanySundays (addDays s 7) t (c + 1))"
      then have "addDays s 7 \<le> date e \<and> date e < t" using "1.IH" True by blast
      then show ?thesis by simp
    qed
  next
    case False
    then have "epiphanySundays s t c = []" by (subst epiphanySundays_unfold) simp
    then show ?thesis using "1.prems" by simp
  qed
qed


lemma decimal_chars: "c \<in> set (decimal n) \<Longrightarrow> 48 \<le> (of_char c :: nat) \<and> (of_char c :: nat) \<le> 57"
proof (induction n rule: decimal.induct)
  case (1 n)
  have d: "48 \<le> (of_char (char_of (48 + k)) :: nat) \<and> (of_char (char_of (48 + k)) :: nat) \<le> 57"
    if "k < 10" for k :: nat
    using that by simp
  show ?case
  proof (cases "n < 10")
    case True
    then have "c = char_of (48 + n)" using "1.prems" by (subst (asm) decimal.simps) simp
    then show ?thesis using d [OF True] by simp
  next
    case False
    then have "c \<in> set (decimal (n div 10)) \<or> c = char_of (48 + n mod 10)"
      using "1.prems" by (subst (asm) decimal.simps) auto
    then show ?thesis
    proof
      assume "c \<in> set (decimal (n div 10))"
      then show ?thesis using "1.IH" False by simp
    next
      assume "c = char_of (48 + n mod 10)"
      then show ?thesis using d [of "n mod 10"] by simp
    qed
  qed
qed

lemma numStr_chars:
  "c \<in> set (numStr i) \<Longrightarrow> (of_char c :: nat) = 45 \<or> (48 \<le> (of_char c :: nat) \<and> (of_char c :: nat) \<le> 57)"
  using decimal_chars [of c "nat i"] decimal_chars [of c "nat (- i)"]
  by (auto simp: numStr_def split: if_splits)

lemma includes_skip:
  "c \<notin> set xs \<Longrightarrow> includes_str (xs @ ys) (c # cs) = includes_str ys (c # cs)"
  by (induction xs) auto

lemma includes_numStr:
  assumes "(of_char c :: nat) \<noteq> 45" "(of_char c :: nat) < 48 \<or> 57 < (of_char c :: nat)"
  shows "includes_str (numStr i @ ys) (c # cs) = includes_str ys (c # cs)"
proof (rule includes_skip)
  show "c \<notin> set (numStr i)" using numStr_chars [of c i] assms by auto
qed


lemma epiphanySundays_slug:
  "e \<in> set (epiphanySundays s t c) \<Longrightarrow> \<exists>n. slug e = numStr n @ ''-sunnuntai-loppiaisesta''"
proof -
  assume "e \<in> set (epiphanySundays s t c)"
  then obtain i where "i < length (epiphanySundays s t c)" "epiphanySundays s t c ! i = e"
    by (auto simp: in_set_conv_nth)
  then show ?thesis using epiphanySundays_nth [of i s t c] by (auto simp: add_def)
qed

lemma epiphanySundays_sorted: "sorted (map date (epiphanySundays s t c))"
proof (induction s t c rule: epiphanySundays.induct)
  case (1 s t c)
  show ?case
  proof (cases "s < t \<and> c \<le> 6")
    case True
    have "sorted (map date (epiphanySundays (addDays s 7) t (c + 1)))" using 1 True by simp
    moreover have "\<forall>e \<in> set (epiphanySundays (s + 7) t (c + 1)). s \<le> date e"
      using epiphanySundays_dates [of _ "s + 7" t "c + 1"] by fastforce
    ultimately show ?thesis using True by (subst epiphanySundays_unfold) (simp add: add_def)
  next
    case False
    then have "epiphanySundays s t c = []" by (subst epiphanySundays_unfold) simp
    then show ?thesis by simp
  qed
qed

lemma isEpiphanySunday_add [simp]:
  "isEpiphanySunday (add d s t) = includes_str s ''sunnuntai-loppiaisesta''"
  by (simp add: isEpiphanySunday_def add_def)

lemma filter_addWeekdays:
  "(\<And>d. P (add d s ''weekday'') = b) \<Longrightarrow> filter P (addWeekdays sunday s) = (if b then addWeekdays sunday s else [])"
  by (simp add: addWeekdays_def filter_map comp_def)

lemma fe_advent: "filter isEpiphanySunday (adventEntries Y) = []"
  by (simp add: adventEntries_def Let_def filter_addWeekdays [where b = False])

lemma fe_christmas: "filter isEpiphanySunday (christmasEntries Y) = []"
  by (simp add: christmasEntries_def Let_def split: option.split)

lemma fe_epiphany:
  "filter isEpiphanySunday (epiphanyEntries Y E) =
   epiphanySundays (sundayOnOrAfter (addDays (makeDate (Y + 1) 1 6) 1)) (addDays E (- 63)) 1"
proof -
  have "filter isEpiphanySunday (epiphanySundays s t c) = epiphanySundays s t c" for s t c
  proof (rule filter_True, rule ballI)
    fix e assume "e \<in> set (epiphanySundays s t c)"
    then obtain n where "slug e = numStr n @ ''-sunnuntai-loppiaisesta''"
      using epiphanySundays_slug by blast
    then show "isEpiphanySunday e" by (simp add: isEpiphanySunday_def includes_numStr)
  qed
  then show ?thesis by (simp add: epiphanyEntries_def Let_def)
qed

lemma fe_preLent: "filter isEpiphanySunday (preLentEntries E) = []"
  by (simp add: preLentEntries_def)

lemma fe_lent: "filter isEpiphanySunday (lentEntries E) = []"
  by (simp add: lentEntries_def filter_map comp_def includes_numStr)

lemma fe_holyWeek: "filter isEpiphanySunday (holyWeekEntries E) = []"
  by (simp add: holyWeekEntries_def)

lemma fe_easter: "filter isEpiphanySunday (easterEntries E) = []"
  by (simp add: easterEntries_def filter_map comp_def includes_numStr)

lemma fe_pentecost: "filter isEpiphanySunday (pentecostEntries E) = []"
  by (simp add: pentecostEntries_def Let_def filter_addWeekdays [where b = False])

lemma fe_pentecostSundays: "filter isEpiphanySunday (pentecostSundayEntries Y E) = []"
  by (simp add: pentecostSundayEntries_def pentecostSundayEntry_def Let_def filter_map comp_def includes_numStr)

lemma fe_special: "filter isEpiphanySunday (specialEntries Y E) = []"
  by (simp add: specialEntries_def Let_def)

lemma filter_generateChurchYear:
  "filter P (generateChurchYear Y) = sort_key date (filter P (generatedEntries Y))"
  by (simp add: generateChurchYear_def filter_sort)

lemma epiphanySundays_of_calendar:
  "filter isEpiphanySunday (generateChurchYear Y) =
   epiphanySundays (sundayOnOrAfter (addDays (makeDate (Y + 1) 1 6) 1))
     (addDays (easterSunday (Y + 1)) (- 63)) 1"
  unfolding filter_generateChurchYear generatedEntries_def Let_def filter_append
    fe_advent fe_christmas fe_epiphany fe_preLent fe_lent fe_holyWeek fe_easter fe_pentecost
    fe_pentecostSundays fe_special
  by (simp add: sort_key_id_if_sorted epiphanySundays_sorted)


lemma filter_none: "(\<And>e. e \<in> set xs \<Longrightarrow> \<not> P e) \<Longrightarrow> filter P xs = []"
  by (induction xs) auto

lemma addWeekdays_dates:
  "e \<in> set (addWeekdays sunday s) \<Longrightarrow> sunday + 1 \<le> date e \<and> date e \<le> sunday + 6"
  by (auto simp: addWeekdays_def)

lemma adventEntries_dates:
  assumes "e \<in> set (adventEntries Y)"
  shows "nearestSunday (makeDate Y 11 30) \<le> date e"
    and "date e \<le> nearestSunday (makeDate Y 11 30) + 21"
  using assms
    addWeekdays_dates [of e "nearestSunday (makeDate Y 11 30)" "''1-adventtisunnuntain-jalkeinen-viikko''"]
  by (auto simp: adventEntries_def Let_def)

text \<open>Dates of the start year and of the next year, counted from the next year's first day.\<close>

lemma makeDate_december:
  "100 \<le> Y \<Longrightarrow> makeDate Y 12 d = DayFromYear (Y + 1) - 32 + d"
  by (simp add: makeDate_eq monthStart_def DayFromYear_step)

lemma makeDate_november30:
  "100 \<le> Y \<Longrightarrow> makeDate Y 11 30 = DayFromYear (Y + 1) - 32"
  by (simp add: makeDate_eq monthStart_def DayFromYear_step)

lemma makeDate_next:
  "100 \<le> Y \<Longrightarrow> 1 \<le> m \<Longrightarrow> m \<le> 12 \<Longrightarrow>
   makeDate (Y + 1) m d = DayFromYear (Y + 1) + monthStart (m - 1) (InLeapYear (Y + 1)) + d - 1"
  by (simp add: makeDate_eq)

lemma sundayAfterInRange_bounds:
  "sundayAfterInRange a lo hi = Some c \<Longrightarrow> lo \<le> c \<and> c \<le> hi"
  by (auto simp: sundayAfterInRange_def Let_def split: if_splits)

lemma christmasEntries_dates:
  assumes Y: "100 \<le> Y" and e: "e \<in> set (christmasEntries Y)"
  shows "DayFromYear (Y + 1) - 8 \<le> date e" and "date e \<le> DayFromYear (Y + 1) + 4"
proof -
  let ?J = "DayFromYear (Y + 1)"
  have s1: "?J - 5 \<le> c \<and> c \<le> ?J + 1"
    if "sundayAfterInRange (makeDate Y 12 25) (makeDate Y 12 27) (makeDate (Y + 1) 1 2) = Some c" for c
    using sundayAfterInRange_bounds [OF that] Y by (simp add: makeDate_december makeDate_next monthStart_def)
  have s2: "?J + 1 \<le> c \<and> c \<le> ?J + 4"
    if "sundayAfterInRange (makeDate (Y + 1) 1 1) (makeDate (Y + 1) 1 2) (makeDate (Y + 1) 1 5) = Some c" for c
    using sundayAfterInRange_bounds [OF that] Y by (simp add: makeDate_next monthStart_def)
  have "?J - 8 \<le> date e \<and> date e \<le> ?J + 4"
  proof (cases "sundayAfterInRange (makeDate Y 12 25) (makeDate Y 12 27) (makeDate (Y + 1) 1 2)";
      cases "sundayAfterInRange (makeDate (Y + 1) 1 1) (makeDate (Y + 1) 1 2) (makeDate (Y + 1) 1 5)")
    fix c1 c2
    assume a: "sundayAfterInRange (makeDate Y 12 25) (makeDate Y 12 27) (makeDate (Y + 1) 1 2) = Some c1"
      "sundayAfterInRange (makeDate (Y + 1) 1 1) (makeDate (Y + 1) 1 2) (makeDate (Y + 1) 1 5) = Some c2"
    show ?thesis using e Y s1 [OF a(1)] s2 [OF a(2)] unfolding christmasEntries_def Let_def a
      by (auto simp: makeDate_december makeDate_next monthStart_def)
  next
    fix c1
    assume a: "sundayAfterInRange (makeDate Y 12 25) (makeDate Y 12 27) (makeDate (Y + 1) 1 2) = Some c1"
      "sundayAfterInRange (makeDate (Y + 1) 1 1) (makeDate (Y + 1) 1 2) (makeDate (Y + 1) 1 5) = None"
    show ?thesis using e Y s1 [OF a(1)] unfolding christmasEntries_def Let_def a
      by (auto simp: makeDate_december makeDate_next monthStart_def)
  next
    fix c2
    assume a: "sundayAfterInRange (makeDate Y 12 25) (makeDate Y 12 27) (makeDate (Y + 1) 1 2) = None"
      "sundayAfterInRange (makeDate (Y + 1) 1 1) (makeDate (Y + 1) 1 2) (makeDate (Y + 1) 1 5) = Some c2"
    show ?thesis using e Y s2 [OF a(2)] unfolding christmasEntries_def Let_def a
      by (auto simp: makeDate_december makeDate_next monthStart_def)
  next
    assume a: "sundayAfterInRange (makeDate Y 12 25) (makeDate Y 12 27) (makeDate (Y + 1) 1 2) = None"
      "sundayAfterInRange (makeDate (Y + 1) 1 1) (makeDate (Y + 1) 1 2) (makeDate (Y + 1) 1 5) = None"
    show ?thesis using e Y unfolding christmasEntries_def Let_def a
      by (auto simp: makeDate_december makeDate_next monthStart_def)
  qed
  then show "?J - 8 \<le> date e" and "date e \<le> ?J + 4" by simp_all
qed

lemma pentecostEntries_subset:
  "set (pentecostEntries (easterSunday (Y + 1))) \<subseteq> set (generateChurchYear Y)"
  by (auto simp: set_generateChurchYear generatedEntries_def Let_def)

lemma specialEntries_subset:
  "set (specialEntries Y (easterSunday (Y + 1))) \<subseteq> set (generateChurchYear Y)"
  by (auto simp: set_generateChurchYear generatedEntries_def Let_def)

lemma itsenaisyyspaiva_generated:
  "add (makeDate (Y + 1) 12 6) ''itsenaisyyspaiva'' ''special'' \<in> set (generateChurchYear Y)"
proof -
  have "add (makeDate (Y + 1) 12 6) ''itsenaisyyspaiva'' ''special''
      \<in> set (specialEntries Y (easterSunday (Y + 1)))"
    by (simp add: specialEntries_def Let_def)
  then show ?thesis using specialEntries_subset [of Y] by auto
qed

text \<open>December 6 falls after the Sunday nearest to November 30 of the same year.\<close>

lemma december6_after_advent:
  "nearestSunday (makeDate y 11 30) < makeDate y 12 6"
proof -
  have "makeDate y 12 6 = makeDate y 11 30 + 6"
    by (simp add: makeDate_def DateUTC_def MakeDay_def Let_def monthStart_def)
  then show ?thesis using nearestSunday_near(2) [of "makeDate y 11 30"] by simp
qed

lemma makeDate_march22:
  "makeDate y 3 22 =
   makeDate y 1 6 + 75 + InLeapYear (if 0 \<le> y \<and> y \<le> 99 then 1900 + y else y)"
  by (simp add: makeDate_def DateUTC_def MakeDay_def Let_def monthStart_def)

text \<open>
  The slugs \<open>helatorstai\<close>, \<open>helluntaiaatto\<close> and \<open>helluntaipaiva\<close> are given to one
  entry each. The filters below select the slugs that begin with \<open>he\<close>.
\<close>

lemma decimal_nonempty: "decimal n \<noteq> []"
  by (subst decimal.simps) simp

lemma numStr_nonempty: "numStr i \<noteq> []"
  by (simp add: numStr_def decimal_nonempty)

lemma numStr_append_neq:
  assumes "(of_char c :: nat) \<noteq> 45" "(of_char c :: nat) < 48 \<or> 57 < (of_char c :: nat)"
  shows "numStr i @ ys \<noteq> c # cs"
proof
  assume e: "numStr i @ ys = c # cs"
  obtain x xs where n: "numStr i = x # xs" using numStr_nonempty [of i] by (cases "numStr i") auto
  then have "x = c" using e by simp
  then have "c \<in> set (numStr i)" using n by simp
  from numStr_chars [OF this] assms show False by auto
qed

lemma numStr_neq_h: "numStr i @ ys \<noteq> CHR ''h'' # cs"
  by (rule numStr_append_neq) simp_all

lemma fh_advent: "filter (\<lambda>e. slug e = CHR ''h'' # CHR ''e'' # cs) (adventEntries Y) = []"
  by (simp add: adventEntries_def Let_def filter_addWeekdays [where b = False])

lemma fh_christmas: "filter (\<lambda>e. slug e = CHR ''h'' # CHR ''e'' # cs) (christmasEntries Y) = []"
  by (simp add: christmasEntries_def Let_def split: option.split)

lemma fh_epiphany: "filter (\<lambda>e. slug e = CHR ''h'' # CHR ''e'' # cs) (epiphanyEntries Y E) = []"
proof -
  have "filter (\<lambda>e. slug e = CHR ''h'' # CHR ''e'' # cs) (epiphanySundays s t c) = []" for s t c
  proof (rule filter_False, rule ballI)
    fix e assume "e \<in> set (epiphanySundays s t c)"
    then obtain n where "slug e = numStr n @ ''-sunnuntai-loppiaisesta''"
      using epiphanySundays_slug by blast
    then show "\<not> slug e = CHR ''h'' # CHR ''e'' # cs" by (simp add: numStr_neq_h)
  qed
  then show ?thesis by (simp add: epiphanyEntries_def Let_def)
qed

lemma fh_preLent: "filter (\<lambda>e. slug e = CHR ''h'' # CHR ''e'' # cs) (preLentEntries E) = []"
  by (simp add: preLentEntries_def)

lemma fh_lent: "filter (\<lambda>e. slug e = CHR ''h'' # CHR ''e'' # cs) (lentEntries E) = []"
  by (simp add: lentEntries_def filter_map comp_def numStr_neq_h)

lemma fh_holyWeek: "filter (\<lambda>e. slug e = CHR ''h'' # CHR ''e'' # cs) (holyWeekEntries E) = []"
  by (simp add: holyWeekEntries_def)

lemma fh_easter: "filter (\<lambda>e. slug e = CHR ''h'' # CHR ''e'' # cs) (easterEntries E) = []"
  by (simp add: easterEntries_def filter_map comp_def numStr_neq_h)

lemma fh_pentecostSundays:
  "filter (\<lambda>e. slug e = CHR ''h'' # CHR ''e'' # cs) (pentecostSundayEntries Y E) = []"
  by (simp add: pentecostSundayEntries_def pentecostSundayEntry_def Let_def filter_map comp_def
      numStr_neq_h)

lemma fh_special: "filter (\<lambda>e. slug e = CHR ''h'' # CHR ''e'' # cs) (specialEntries Y E) = []"
  by (simp add: specialEntries_def Let_def)

lemma fh_pentecost:
  "cs \<noteq> ''lluntain-jalkeinen-viikko-eli-helluntaiviikko'' \<Longrightarrow>
   filter (\<lambda>e. slug e = CHR ''h'' # CHR ''e'' # cs) (pentecostEntries E) =
     filter (\<lambda>e. slug e = CHR ''h'' # CHR ''e'' # cs)
       [add (E + 39) ''helatorstai'' ''feast'',
        add (E + 48) ''helluntaiaatto'' ''service'',
        add (E + 49) ''helluntaipaiva'' ''feast'']"
  by (simp add: pentecostEntries_def Let_def filter_addWeekdays [where b = False])

lemma filter_he_calendar:
  assumes "cs \<noteq> ''lluntain-jalkeinen-viikko-eli-helluntaiviikko''"
  shows "filter (\<lambda>e. slug e = CHR ''h'' # CHR ''e'' # cs) (generateChurchYear Y) =
         filter (\<lambda>e. slug e = CHR ''h'' # CHR ''e'' # cs)
           [add (easterSunday (Y + 1) + 39) ''helatorstai'' ''feast'',
            add (easterSunday (Y + 1) + 48) ''helluntaiaatto'' ''service'',
            add (easterSunday (Y + 1) + 49) ''helluntaipaiva'' ''feast'']"
proof -
  let ?P = "\<lambda>e. slug e = CHR ''h'' # CHR ''e'' # cs"
  let ?l = "[add (easterSunday (Y + 1) + 39) ''helatorstai'' ''feast'',
             add (easterSunday (Y + 1) + 48) ''helluntaiaatto'' ''service'',
             add (easterSunday (Y + 1) + 49) ''helluntaipaiva'' ''feast'']"
  have "sorted (map date ?l)" by simp
  then have "sorted (map date (filter ?P ?l))" by (rule sorted_filter)
  then have s: "sort_key date (filter ?P ?l) = filter ?P ?l"
    by (rule sort_key_id_if_sorted)
  show ?thesis
    unfolding filter_generateChurchYear generatedEntries_def Let_def filter_append
      fh_advent fh_christmas fh_epiphany fh_preLent fh_lent fh_holyWeek fh_easter
      fh_pentecost [OF assms] fh_pentecostSundays fh_special append_Nil append_Nil2
    by (rule s)
qed


section \<open>Facts about church-year boundaries and the Sundays after Pentecost\<close>

text \<open>The 1st Advent Sunday of a year lies in that year, between November 27 and December 3.\<close>

lemma advent1_bounds:
  assumes "100 \<le> Y"
  shows "DayFromYear Y + 330 + InLeapYear Y \<le> nearestSunday (makeDate Y 11 30)"
    and "nearestSunday (makeDate Y 11 30) \<le> DayFromYear Y + 336 + InLeapYear Y"
proof -
  have "makeDate Y 11 30 = DayFromYear Y + 333 + InLeapYear Y"
    using assms by (simp add: makeDate_eq monthStart_def)
  then show "DayFromYear Y + 330 + InLeapYear Y \<le> nearestSunday (makeDate Y 11 30)"
    and "nearestSunday (makeDate Y 11 30) \<le> DayFromYear Y + 336 + InLeapYear Y"
    using nearestSunday_near [of "makeDate Y 11 30"] by simp_all
qed




lemma getChurchYearStart_cases:
  "getChurchYearStart d =
     (if d < nearestSunday (makeDate (YearFromTime d) 11 30)
      then YearFromTime d - 1 else YearFromTime d)"
  by (simp add: getChurchYearStart_def getUTCFullYear_def Let_def)




lemma pentecostSundays_unfold:
  "pentecostSundays s t n =
     (if s \<le> t then (s, n) # pentecostSundays (s + 7) t (n + 1) else [])"
  by (subst pentecostSundays.simps) simp

lemma pentecostSundays_nth:
  "i < length (pentecostSundays s t n) \<Longrightarrow>
   pentecostSundays s t n ! i = (s + 7 * int i, n + int i)"
proof (induction s t n arbitrary: i rule: pentecostSundays.induct)
  case (1 s t n)
  note U = pentecostSundays_unfold [of s t n]
  show ?case
  proof (cases "s \<le> t")
    case True
    show ?thesis
    proof (cases i)
      case 0
      then show ?thesis using True by (subst U) simp
    next
      case (Suc j)
      then have "j < length (pentecostSundays (addDays s 7) t (n + 1))"
        using "1.prems" True by (subst (asm) U) simp
      then have "pentecostSundays (addDays s 7) t (n + 1) ! j =
          (addDays s 7 + 7 * int j, n + 1 + int j)"
        using "1.IH" True by blast
      then show ?thesis using True Suc by (subst U) (simp add: algebra_simps)
    qed
  next
    case False
    then have "pentecostSundays s t n = []" by (subst U) simp
    then show ?thesis using "1.prems" by simp
  qed
qed

lemma pentecostSundays_length:
  "s \<le> t + 7 \<Longrightarrow> int (length (pentecostSundays s t n)) = (t - s) div 7 + 1"
proof (induction s t n rule: pentecostSundays.induct)
  case (1 s t n)
  note U = pentecostSundays_unfold [of s t n]
  show ?case
  proof (cases "s \<le> t")
    case True
    then have "int (length (pentecostSundays (addDays s 7) t (n + 1))) = (t - addDays s 7) div 7 + 1"
      using "1.IH" by simp
    moreover have "(t - (s + 7)) div 7 + 1 = (t - s) div 7"
      using div_shift [of 7 "t - s" 1] by (simp add: algebra_simps)
    ultimately show ?thesis using True by (subst U) simp
  next
    case False
    then have "(t - s) div 7 = - 1"
      using "1.prems" by (intro int_div_pos_eq [where r = "t - s + 7"]) simp_all
    then show ?thesis using False by (subst U) simp
  qed
qed

lemma date_pentecostSundayEntry [simp]: "date (pentecostSundayEntry n i d) = d"
  by (simp add: pentecostSundayEntry_def Let_def)

lemma pentecostSundayEntries_dates:
  "map date (pentecostSundayEntries Y E) =
   map fst (pentecostSundays (E + 63) (nearestSunday (makeDate (Y + 1) 11 30) - 7) 2)"
proof -
  have "map (\<lambda>i. fst (ps ! i)) [0..<length ps] = map fst ps" for ps :: "(jsdate \<times> int) list"
    by (rule nth_equalityI) simp_all
  then show ?thesis by (simp add: pentecostSundayEntries_def Let_def comp_def add.commute)
qed

lemma pentecostSundayEntries_subset:
  "set (pentecostSundayEntries Y (easterSunday (Y + 1))) \<subseteq> set (generateChurchYear Y)"
  by (auto simp: set_generateChurchYear generatedEntries_def Let_def)

lemma pentecostSundayEntry_end:
  "int n - int i = 1 \<Longrightarrow> pentecostSundayEntry n i d = add d ''tuomiosunnuntai'' ''sunday''"
  "int n - int i = 2 \<Longrightarrow> pentecostSundayEntry n i d = add d ''valvomisen-sunnuntai'' ''sunday''"
  by (simp_all add: pentecostSundayEntry_def Let_def)

lemma pentecostSundayEntries_structure:
  assumes Y: "100 \<le> Y + 1"
  defines "E \<equiv> easterSunday (Y + 1)"
  defines "A \<equiv> nearestSunday (makeDate (Y + 1) 11 30)"
  defines "pe \<equiv> pentecostSundayEntries Y E"
  shows "2 \<le> length pe"
    and "\<forall>i < length pe. date (pe ! i) = E + 63 + 7 * int i"
    and "last pe = add (A - 7) ''tuomiosunnuntai'' ''sunday''"
    and "pe ! (length pe - 2) = add (A - 14) ''valvomisen-sunnuntai'' ''sunday''"
proof -
  define s where "s = E + 63"
  define T where "T = A - 7"
  define ps where "ps = pentecostSundays s T 2"
  define k where "k = (T - s) div 7"
  have pe: "pe = map (\<lambda>i. pentecostSundayEntry (length ps) i (fst (ps ! i))) [0..<length ps]"
    by (simp add: pe_def pentecostSundayEntries_def Let_def ps_def s_def T_def A_def add.commute)
  have len: "length pe = length ps" by (simp add: pe)
  have y0: "0 \<le> Y + 1" using Y by simp
  have Eu: "E \<le> DayFromYear (Y + 1) + InLeapYear (Y + 1) + 114"
    using easterSunday_range(2) [OF y0] Y by (simp add: E_def makeDate_eq monthStart_def)
  have Al: "DayFromYear (Y + 1) + 330 + InLeapYear (Y + 1) \<le> A"
    using advent1_bounds(1) [OF Y] by (simp add: A_def)
  have gap: "s + 7 \<le> T" using Eu Al by (simp add: s_def T_def)
  have "dayOfWeek E = 0" unfolding E_def by (rule easterSunday_is_sunday [OF Y])
  moreover have "dayOfWeek A = 0" unfolding A_def by (rule nearestSunday_is_sunday)
  ultimately have "(T - s) mod 7 = 0"
    unfolding dayOfWeek_def getUTCDay_def s_def T_def by presburger
  then have k7: "T - s = 7 * k" unfolding k_def by presburger
  have k1: "1 \<le> k" using gap k7 by simp
  have "int (length ps) = k + 1"
    unfolding ps_def k_def using gap by (intro pentecostSundays_length) simp
  then have lps: "length ps = nat k + 1" using k1 by simp
  have nth: "pe ! i = pentecostSundayEntry (length ps) i (s + 7 * int i)" if "i < length ps" for i
    using that pentecostSundays_nth [of i s T 2] by (simp add: pe ps_def)
  show "2 \<le> length pe" using k1 by (simp add: len lps)
  show "\<forall>i < length pe. date (pe ! i) = E + 63 + 7 * int i"
    using nth by (simp add: len s_def)
  have ne: "pe \<noteq> []" using lps len by auto
  have "last pe = pe ! nat k" using ne by (simp add: last_conv_nth len lps)
  also have "\<dots> = pentecostSundayEntry (nat k + 1) (nat k) (s + 7 * int (nat k))"
    using nth [of "nat k"] by (simp add: lps)
  also have "\<dots> = add T ''tuomiosunnuntai'' ''sunday''"
    using k1 k7 by (simp add: pentecostSundayEntry_end(1))
  finally show "last pe = add (A - 7) ''tuomiosunnuntai'' ''sunday''" by (simp add: T_def)
  have "pe ! (length pe - 2) = pe ! (nat k - 1)" by (simp add: len lps)
  also have "\<dots> = pentecostSundayEntry (nat k + 1) (nat k - 1) (s + 7 * int (nat k - 1))"
    using nth [of "nat k - 1"] by (simp add: lps)
  also have "\<dots> = add (T - 7) ''valvomisen-sunnuntai'' ''sunday''"
  proof -
    have a: "int (nat k - 1) = k - 1" using k1 by simp
    have b: "s + 7 * (k - 1) = T - 7" using k7 by simp
    have c: "pentecostSundayEntry (nat k + 1) (nat k - 1) (T - 7) =
        add (T - 7) ''valvomisen-sunnuntai'' ''sunday''"
      by (rule pentecostSundayEntry_end(2)) (use k1 in simp)
    show ?thesis unfolding a b by (rule c)
  qed
  finally show "pe ! (length pe - 2) = add (A - 14) ''valvomisen-sunnuntai'' ''sunday''"
    by (simp add: T_def)
qed

text \<open>Easter Sunday counted from the first day of its year.\<close>

lemma easterSunday_year_bounds:
  assumes "100 \<le> Y + 1"
  shows "DayFromYear (Y + 1) + InLeapYear (Y + 1) + 80 \<le> easterSunday (Y + 1)"
    and "easterSunday (Y + 1) \<le> DayFromYear (Y + 1) + InLeapYear (Y + 1) + 114"
proof -
  have y0: "0 \<le> Y + 1" using assms by simp
  show "DayFromYear (Y + 1) + InLeapYear (Y + 1) + 80 \<le> easterSunday (Y + 1)"
    using easterSunday_range(1) [OF y0] assms by (simp add: makeDate_eq monthStart_def)
  show "easterSunday (Y + 1) \<le> DayFromYear (Y + 1) + InLeapYear (Y + 1) + 114"
    using easterSunday_range(2) [OF y0] assms by (simp add: makeDate_eq monthStart_def)
qed

lemma pentecostSundayEntries_dates_ge:
  "e \<in> set (pentecostSundayEntries Y E) \<Longrightarrow> E + 63 \<le> date e"
proof -
  assume "e \<in> set (pentecostSundayEntries Y E)"
  then have "date e \<in> set (map date (pentecostSundayEntries Y E))" by simp
  then obtain p where p: "p \<in> set (pentecostSundays (E + 63) (nearestSunday (makeDate (Y + 1) 11 30) - 7) 2)"
    and d: "date e = fst p"
    unfolding pentecostSundayEntries_dates by auto
  then obtain i where "i < length (pentecostSundays (E + 63) (nearestSunday (makeDate (Y + 1) 11 30) - 7) 2)"
    "pentecostSundays (E + 63) (nearestSunday (makeDate (Y + 1) 11 30) - 7) 2 ! i = p"
    by (auto simp: in_set_conv_nth)
  then show ?thesis using pentecostSundays_nth [of i "E + 63" _ 2] d by auto
qed

lemma saturdayOnOrBefore_near: "d - 6 \<le> saturdayOnOrBefore d" "saturdayOnOrBefore d \<le> d"
proof -
  have "0 \<le> dayOfWeek d - 6 + 7" using dayOfWeek_range [of d] by simp
  then have "js_rem (dayOfWeek d - 6 + 7) 7 = (dayOfWeek d - 6 + 7) mod 7"
    by (rule js_rem_nonneg) simp
  then show "d - 6 \<le> saturdayOnOrBefore d" "saturdayOnOrBefore d \<le> d"
    by (simp_all add: saturdayOnOrBefore_def weekdayOnOrBefore_def Let_def)
qed

lemma pentecostSundayEntries_dates_le:
  "e \<in> set (pentecostSundayEntries Y E) \<Longrightarrow> date e \<le> nearestSunday (makeDate (Y + 1) 11 30) - 7"
proof -
  let ?t = "nearestSunday (makeDate (Y + 1) 11 30) - 7"
  have b: "p \<in> set (pentecostSundays s t n) \<Longrightarrow> fst p \<le> t" for p s t n
  proof (induction s t n rule: pentecostSundays.induct)
    case (1 s t n)
    show ?case
    proof (cases "s \<le> t")
      case True
      from "1.prems" have "p = (s, n) \<or> p \<in> set (pentecostSundays (addDays s 7) t (n + 1))"
        using True by (subst (asm) pentecostSundays_unfold) auto
      then show ?thesis using True "1.IH" by auto
    next
      case False
      then show ?thesis using "1.prems" by (subst (asm) pentecostSundays_unfold) simp
    qed
  qed
  assume "e \<in> set (pentecostSundayEntries Y E)"
  then have "date e \<in> set (map date (pentecostSundayEntries Y E))" by simp
  then obtain p where "p \<in> set (pentecostSundays (E + 63) ?t 2)" "date e = fst p"
    unfolding pentecostSundayEntries_dates by auto
  then show ?thesis using b by auto
qed

text \<open>
  Every generated entry other than Independence Day lies in the church year: on or after
  the 1st Advent Sunday of the start year and before the 1st Advent Sunday of the next year.
\<close>

lemma entries_within_church_year:
  assumes Y: "100 \<le> Y" and e: "e \<in> set (generateChurchYear Y)"
    and s: "slug e \<noteq> ''itsenaisyyspaiva''"
  shows "nearestSunday (makeDate Y 11 30) \<le> date e"
    and "date e < nearestSunday (makeDate (Y + 1) 11 30)"
proof -
  let ?J = "DayFromYear (Y + 1)"
  let ?L = "InLeapYear (Y + 1)"
  let ?A = "nearestSunday (makeDate Y 11 30)"
  let ?B = "nearestSunday (makeDate (Y + 1) 11 30)"
  let ?E = "easterSunday (Y + 1)"
  have Y1: "100 \<le> Y + 1" using Y by simp
  have L: "0 \<le> ?L" "?L \<le> 1" using InLeapYear_range [of "Y + 1"] by auto
  have A: "?A \<le> ?J - 29" using advent1_bounds(2) [OF Y] by (simp add: DayFromYear_step)
  have B: "?J + 330 + ?L \<le> ?B" using advent1_bounds(1) [OF Y1] by simp
  have El: "?J + ?L + 80 \<le> ?E" and Eu: "?E \<le> ?J + ?L + 114"
    using easterSunday_year_bounds [OF Y1] by simp_all
  have "?A \<le> date e \<and> date e < ?B" if "e \<in> set (adventEntries Y)"
    using adventEntries_dates [OF that] A B L by simp
  moreover have "?A \<le> date e \<and> date e < ?B" if "e \<in> set (christmasEntries Y)"
    using christmasEntries_dates [OF Y that] A B L by simp
  moreover have "?A \<le> date e \<and> date e < ?B" if "e \<in> set (epiphanyEntries Y ?E)"
  proof -
    have j: "makeDate (Y + 1) 1 6 = ?J + 5" using Y by (simp add: makeDate_next monthStart_def)
    from that have "e = add (?J + 5) ''loppiainen'' ''feast''
        \<or> e \<in> set (epiphanySundays (sundayOnOrAfter (?J + 5 + 1)) (?E - 63) 1)"
      by (simp add: epiphanyEntries_def Let_def j)
    then show ?thesis
    proof
      assume "e = add (?J + 5) ''loppiainen'' ''feast''"
      then show ?thesis using A B L by simp
    next
      assume "e \<in> set (epiphanySundays (sundayOnOrAfter (?J + 5 + 1)) (?E - 63) 1)"
      from epiphanySundays_dates [OF this] sundayOnOrAfter_near(1) [of "?J + 5 + 1"]
      show ?thesis using A B L Eu by simp
    qed
  qed
  moreover have "?A \<le> date e \<and> date e < ?B" if "e \<in> set (preLentEntries ?E)"
    using that A B L El Eu by (auto simp: preLentEntries_def)
  moreover have "?A \<le> date e \<and> date e < ?B" if "e \<in> set (lentEntries ?E)"
    using that A B L El Eu by (auto simp: lentEntries_def)
  moreover have "?A \<le> date e \<and> date e < ?B" if "e \<in> set (holyWeekEntries ?E)"
    using that A B L El Eu by (auto simp: holyWeekEntries_def)
  moreover have "?A \<le> date e \<and> date e < ?B" if "e \<in> set (easterEntries ?E)"
    using that A B L El Eu by (auto simp: easterEntries_def)
  moreover have "?A \<le> date e \<and> date e < ?B" if "e \<in> set (pentecostEntries ?E)"
  proof -
    from that have "e \<in> set (addWeekdays (?E + 49)
          ''helluntain-jalkeinen-viikko-eli-helluntaiviikko'')
        \<or> date e \<in> {?E + 39, ?E + 48, ?E + 49, ?E + 56}"
      by (auto simp: pentecostEntries_def Let_def)
    then show ?thesis
    proof
      assume "e \<in> set (addWeekdays (?E + 49)
          ''helluntain-jalkeinen-viikko-eli-helluntaiviikko'')"
      from addWeekdays_dates [OF this] show ?thesis using A B L El Eu by simp
    next
      assume "date e \<in> {?E + 39, ?E + 48, ?E + 49, ?E + 56}"
      then show ?thesis using A B L El Eu by auto
    qed
  qed
  moreover have "?A \<le> date e \<and> date e < ?B" if "e \<in> set (pentecostSundayEntries Y ?E)"
    using pentecostSundayEntries_dates_ge [OF that] pentecostSundayEntries_dates_le [OF that]
      A L El by simp
  moreover have "?A \<le> date e \<and> date e < ?B" if "e \<in> set (specialEntries Y ?E)"
  proof -
    have m: "makeDate (Y + 1) 2 2 = ?J + 32" "makeDate (Y + 1) 3 25 = ?J + ?L + 83"
      "makeDate (Y + 1) 6 26 = ?J + ?L + 176" "makeDate (Y + 1) 9 29 = ?J + ?L + 271"
      "makeDate (Y + 1) 11 6 = ?J + ?L + 309" "makeDate (Y + 1) 1 19 = ?J + 18"
      "makeDate (Y + 1) 1 18 = ?J + 17" "makeDate (Y + 1) 10 24 = ?J + ?L + 296"
      using Y by (simp_all add: makeDate_next monthStart_def)
    note n = saturdayOnOrBefore_near [of "?J + ?L + 176"] saturdayOnOrBefore_near [of "?J + ?L + 309"]
      sundayOnOrAfter_near [of "?J + ?L + 271"]
    show ?thesis
      using that s A B L n
      by (auto simp: specialEntries_def Let_def m split: if_splits)
  qed
  ultimately have "?A \<le> date e \<and> date e < ?B"
    using e by (auto simp: set_generateChurchYear generatedEntries_def Let_def)
  then show "?A \<le> date e" and "date e < ?B" by simp_all
qed


section \<open>Facts about the date resolver\<close>

lemma cacheValid_empty: "cacheValid Map.empty"
  by (simp add: cacheValid_def)

lemma getCalendar_valid:
  assumes "cacheValid cache"
  shows "fst (getCalendar cache Y) = generateChurchYear Y"
    and "cacheValid (snd (getCalendar cache Y))"
  using assms by (auto simp: getCalendar_def cacheValid_def Let_def split: option.splits)

text \<open>Every generated entry carries the printed form of its own date.\<close>

lemma dateStr_pentecostSundayEntry [simp]:
  "dateStr (pentecostSundayEntry n i d) = formatDate d"
  by (simp add: pentecostSundayEntry_def Let_def)

lemma epiphanySundays_dateStr:
  "e \<in> set (epiphanySundays s t c) \<Longrightarrow> dateStr e = formatDate (date e)"
proof -
  assume "e \<in> set (epiphanySundays s t c)"
  then obtain i where "i < length (epiphanySundays s t c)" "epiphanySundays s t c ! i = e"
    by (auto simp: in_set_conv_nth)
  then show ?thesis using epiphanySundays_nth [of i s t c] by auto
qed

lemma generated_dateStr:
  assumes "e \<in> set (generateChurchYear Y)"
  shows "dateStr e = formatDate (date e)"
proof -
  have c: "dateStr e = formatDate (date e)" if "e \<in> set (christmasEntries Y)"
    using that by (auto simp: christmasEntries_def Let_def split: option.splits)
  have s: "dateStr e = formatDate (date e)" if "e \<in> set (specialEntries Y E)" for E
    using that by (auto simp: specialEntries_def Let_def split: if_splits)
  from assms have "e \<in> set (generatedEntries Y)" by (simp add: set_generateChurchYear)
  then show ?thesis
    using c s epiphanySundays_dateStr
    by (auto simp: generatedEntries_def Let_def adventEntries_def addWeekdays_def
        epiphanyEntries_def preLentEntries_def lentEntries_def holyWeekEntries_def
        easterEntries_def pentecostEntries_def pentecostSundayEntries_def)
qed

lemma sort_key_same_key: "(\<And>x. x \<in> set xs \<Longrightarrow> f x = c) \<Longrightarrow> sort_key f xs = xs"
proof (rule sort_key_id_if_sorted)
  assume "\<And>x. x \<in> set xs \<Longrightarrow> f x = c"
  then have "map f xs = replicate (length xs) c" by (induction xs) auto
  then show "sorted (map f xs)" by (simp add: sorted_replicate)
qed

text \<open>
  The entries that match a date are the entries generated for that date, in the
  order in which they were generated.
\<close>

lemma matches_generation_order:
  "filter (\<lambda>e. dateStr e = formatDate d) (generateChurchYear Y) =
   filter (\<lambda>e. date e = d) (generatedEntries Y)"
proof -
  have "filter (\<lambda>e. dateStr e = formatDate d) (generateChurchYear Y) =
        filter (\<lambda>e. date e = d) (generateChurchYear Y)"
    by (rule filter_cong) (simp_all add: generated_dateStr)
  also have "\<dots> = sort_key date (filter (\<lambda>e. date e = d) (generatedEntries Y))"
    by (rule filter_generateChurchYear)
  also have "\<dots> = filter (\<lambda>e. date e = d) (generatedEntries Y)"
    by (rule sort_key_same_key [where c = d]) simp
  finally show ?thesis .
qed


lemma findPrecedingSunday_Nil [simp]: "findPrecedingSunday [] d = None"
  by (simp add: findPrecedingSunday_def)



lemma prioritizeEntries_props:
  "sorted (map (\<lambda>e. priority (type e)) (prioritizeEntries es))"
  "mset (prioritizeEntries es) = mset es"
  "filter (\<lambda>e. priority (type e) = p) (prioritizeEntries es) = filter (\<lambda>e. priority (type e) = p) es"
  "prioritizeEntries es = [] \<longleftrightarrow> es = []"
proof -
  show "sorted (map (\<lambda>e. priority (type e)) (prioritizeEntries es))"
    by (simp add: prioritizeEntries_def)
  show m: "mset (prioritizeEntries es) = mset es" by (simp add: prioritizeEntries_def)
  show "filter (\<lambda>e. priority (type e) = p) (prioritizeEntries es) = filter (\<lambda>e. priority (type e) = p) es"
    unfolding prioritizeEntries_def by (rule sort_key_stable)
  show "prioritizeEntries es = [] \<longleftrightarrow> es = []" using m by (metis mset_zero_iff)
qed

lemma resolveDate_result:
  fixes db :: daysBySlug and cache :: calendarCache and arg :: dateArg
  assumes "cacheValid cache"
  defines "d \<equiv> dateOf arg"
  defines "Y \<equiv> getChurchYearStart d"
  defines "cal \<equiv> generateChurchYear Y"
  defines "matches \<equiv> filter (\<lambda>e. dateStr e = formatDate d) cal"
  defines "r \<equiv> fst (resolveDate db cache arg)"
  shows "matches = [] \<Longrightarrow> holyDay r = Null"
    and "matches = [] \<Longrightarrow> additionalServices r = Undefined"
    and "matches = [] \<Longrightarrow> precedingSunday r =
           (case findPrecedingSunday cal d of
              Some b \<Rightarrow> Val (enrichEntry db b (getYearCycle Y)) | None \<Rightarrow> Null)"
    and "matches = [] \<Longrightarrow> season r =
           (case findPrecedingSunday cal d of Some b \<Rightarrow> getSeason db b | None \<Rightarrow> Null)"
    and "matches \<noteq> [] \<Longrightarrow> holyDay r = Val (enrichEntry db (hd (prioritizeEntries matches)) (getYearCycle Y))"
    and "matches \<noteq> [] \<Longrightarrow> additionalServices r =
           Val (map (\<lambda>e. enrichEntry db e (getYearCycle Y)) (tl (prioritizeEntries matches)))"
    and "matches \<noteq> [] \<Longrightarrow> precedingSunday r = Undefined"
    and "cacheValid (snd (resolveDate db cache arg))"
proof -
  have c: "getCalendar cache Y = (cal, snd (getCalendar cache Y))"
    using getCalendar_valid(1) [OF assms(1), of Y] by (simp add: cal_def prod_eq_iff)
  have v: "cacheValid (snd (getCalendar cache Y))" by (rule getCalendar_valid(2) [OF assms(1)])
  have R: "resolveDate db cache arg =
    (let ds = formatDate d; cycle = getYearCycle Y;
         info = \<lparr>start = Y, label = (Y, Y + 1), yearCycle = cycle\<rparr>
     in if length matches = 0
        then (let best = findPrecedingSunday cal d
              in (\<lparr>r_date = ds, churchYear = info, holyDay = Null,
                   precedingSunday =
                     (case best of Some b \<Rightarrow> Val (enrichEntry db b cycle) | None \<Rightarrow> Null),
                   additionalServices = Undefined,
                   r_dayOfWeek = getDayOfWeekFi d,
                   season = (case best of Some b \<Rightarrow> getSeason db b | None \<Rightarrow> Null)\<rparr>,
                  snd (getCalendar cache Y)))
        else (let prioritized = prioritizeEntries matches;
                  primary = hd prioritized
              in (\<lparr>r_date = ds, churchYear = info,
                   holyDay = Val (enrichEntry db primary cycle),
                   precedingSunday = Undefined,
                   additionalServices = Val (map (\<lambda>e. enrichEntry db e cycle) (drop 1 prioritized)),
                   r_dayOfWeek = getDayOfWeekFi d,
                   season = getSeason db primary\<rparr>,
                  snd (getCalendar cache Y))))"
    unfolding resolveDate_def dateOf_def [symmetric] d_def [symmetric] Let_def Y_def [symmetric]
    by (subst c) (simp add: matches_def)
  show "matches = [] \<Longrightarrow> holyDay r = Null"
    and "matches = [] \<Longrightarrow> additionalServices r = Undefined"
    and "matches = [] \<Longrightarrow> precedingSunday r =
           (case findPrecedingSunday cal d of
              Some b \<Rightarrow> Val (enrichEntry db b (getYearCycle Y)) | None \<Rightarrow> Null)"
    and "matches = [] \<Longrightarrow> season r =
           (case findPrecedingSunday cal d of Some b \<Rightarrow> getSeason db b | None \<Rightarrow> Null)"
    and "matches \<noteq> [] \<Longrightarrow> holyDay r = Val (enrichEntry db (hd (prioritizeEntries matches)) (getYearCycle Y))"
    and "matches \<noteq> [] \<Longrightarrow> additionalServices r =
           Val (map (\<lambda>e. enrichEntry db e (getYearCycle Y)) (tl (prioritizeEntries matches)))"
    and "matches \<noteq> [] \<Longrightarrow> precedingSunday r = Undefined"
    and "cacheValid (snd (resolveDate db cache arg))"
    unfolding r_def R using v by (simp_all add: Let_def drop_Suc)
qed

lemma upto_1_6: "[1..6] = [1, 2, 3, 4, 5, 6 :: int]" and upto_1_5: "[1..5] = [1, 2, 3, 4, 5 :: int]"
  by code_simp+

text \<open>The day numbers of the entries generated for church year 2025, in generation order.\<close>

lemma generatedEntries_2025_dates:
  "map date (generatedEntries 2025) =
   [20422, 20423, 20424, 20425, 20426, 20427, 20428, 20429, 20436, 20443,
    20446, 20447, 20448, 20449, 20450, 20450, 20453, 20454, 20457, 20459,
    20464, 20471, 20478, 20485, 20492, 20499, 20502, 20506, 20513, 20520,
    20527, 20534, 20541, 20542, 20543, 20544, 20545, 20546, 20546, 20546,
    20547, 20547, 20548, 20549, 20550, 20551, 20552, 20553, 20554, 20555,
    20562, 20569, 20576, 20583, 20590, 20587, 20596, 20597, 20598, 20599,
    20600, 20601, 20602, 20603, 20604, 20611, 20618, 20625, 20632, 20639,
    20646, 20653, 20660, 20667, 20674, 20681, 20688, 20695, 20702, 20709,
    20716, 20723, 20730, 20737, 20744, 20751, 20758, 20765, 20772, 20779,
    20486, 20537, 20624, 20730, 20757, 20472, 20793, 20471, 20750]"
proof -
  have e: "easterSunday 2026 = 20548" by code_simp
  have a: "nearestSunday (makeDate 2026 11 30) = 20786" by code_simp
  have p: "map fst (pentecostSundays (20548 + 63) (20786 - 7) 2) =
    [20611, 20618, 20625, 20632, 20639, 20646, 20653, 20660, 20667, 20674,
     20681, 20688, 20695, 20702, 20709, 20716, 20723, 20730, 20737, 20744,
     20751, 20758, 20765, 20772, 20779]" by code_simp
  have ps: "map date (pentecostSundayEntries 2025 20548) =
    [20611, 20618, 20625, 20632, 20639, 20646, 20653, 20660, 20667, 20674,
     20681, 20688, 20695, 20702, 20709, 20716, 20723, 20730, 20737, 20744,
     20751, 20758, 20765, 20772, 20779]"
    unfolding pentecostSundayEntries_dates using a p by simp
  show ?thesis
    by (simp add: generatedEntries_def adventEntries_def christmasEntries_def epiphanyEntries_def
      preLentEntries_def lentEntries_def holyWeekEntries_def easterEntries_def pentecostEntries_def
      specialEntries_def addWeekdays_def sundayAfterInRange_def
      Let_def e ps upto_1_6 upto_1_5 comp_def
      makeDate_def DateUTC_def MakeDay_def DayFromYear_def InLeapYear_def monthStart_def
      nearestSunday_cases dayOfWeek_def getUTCDay_def sundayOnOrAfter_def
      saturdayOnOrBefore_def weekdayOnOrBefore_def js_rem_def
      epiphanySundays_unfold)
qed

lemma no_entry_2026_02_03:
  "filter (\<lambda>e. dateStr e = formatDate (makeDate 2026 2 3)) (generateChurchYear 2025) = []"
proof -
  have d: "makeDate 2026 2 3 = 20487" by code_simp
  have "20487 \<notin> set (map date (generatedEntries 2025))"
    unfolding generatedEntries_2025_dates by simp
  then have "filter (\<lambda>e. date e = 20487) (generatedEntries 2025) = []"
    by (intro filter_none) auto
  then show ?thesis unfolding matches_generation_order d .
qed


lemma dateOf_simps [simp]:
  "dateOf (DateObject d) = d" "dateOf (DateString (y, m, dd)) = makeDate y m dd"
  by (simp_all add: dateOf_def parseDate_def)


lemma filter_date_none: "g \<notin> set (map date xs) \<Longrightarrow> filter (\<lambda>e. date e = g) xs = []"
  by (intro filter_none) auto

lemma christmas_day_2025:
  "filter (\<lambda>e. dateStr e = formatDate (makeDate 2025 12 25)) (generateChurchYear 2025) =
   [add (makeDate 2025 12 25) ''joulupaiva'' ''feast'']"
proof -
  have d: "makeDate 2025 12 25 = 20447" by code_simp
  have e: "easterSunday 2026 = 20548" by code_simp
  have a: "nearestSunday (makeDate 2026 11 30) = 20786" by code_simp
  have p: "map fst (pentecostSundays (20548 + 63) (20786 - 7) 2) =
    [20611, 20618, 20625, 20632, 20639, 20646, 20653, 20660, 20667, 20674,
     20681, 20688, 20695, 20702, 20709, 20716, 20723, 20730, 20737, 20744,
     20751, 20758, 20765, 20772, 20779]" by code_simp
  have "map date (pentecostSundayEntries 2025 20548) =
    [20611, 20618, 20625, 20632, 20639, 20646, 20653, 20660, 20667, 20674,
     20681, 20688, 20695, 20702, 20709, 20716, 20723, 20730, 20737, 20744,
     20751, 20758, 20765, 20772, 20779]"
    unfolding pentecostSundayEntries_dates using a p by simp
  then have ps: "filter (\<lambda>e. date e = 20447) (pentecostSundayEntries 2025 20548) = []"
    by (intro filter_date_none) (simp only: , simp)
  have "filter (\<lambda>e. date e = 20447) (generatedEntries 2025) = [add 20447 ''joulupaiva'' ''feast'']"
    by (simp add: generatedEntries_def adventEntries_def christmasEntries_def epiphanyEntries_def
      preLentEntries_def lentEntries_def holyWeekEntries_def easterEntries_def pentecostEntries_def
      specialEntries_def addWeekdays_def sundayAfterInRange_def
      Let_def e ps upto_1_6 upto_1_5 comp_def
      makeDate_def DateUTC_def MakeDay_def DayFromYear_def InLeapYear_def monthStart_def
      nearestSunday_cases dayOfWeek_def getUTCDay_def sundayOnOrAfter_def
      saturdayOnOrBefore_def weekdayOnOrBefore_def js_rem_def
      epiphanySundays_unfold)
  then show ?thesis unfolding matches_generation_order d .
qed

text \<open>The entries generated for Good Friday, two days before Easter Sunday.\<close>

lemma goodFriday_matches:
  assumes Y: "100 \<le> Y"
  defines "E \<equiv> easterSunday (Y + 1)"
  shows "filter (\<lambda>e. date e = E - 2) (generatedEntries Y) =
         [add (addDays E (- 2)) ''pitkaperjantai'' ''feast'',
          add (addDays E (- 2)) ''jeesuksen-kuolinhetki'' ''service'',
          add (addDays E (- 2)) ''pitkaperjantain-ilta'' ''service'']"
proof -
  let ?J = "DayFromYear (Y + 1)"
  let ?L = "InLeapYear (Y + 1)"
  let ?P = "\<lambda>e. date e = E - 2"
  have Y1: "100 \<le> Y + 1" using Y by simp
  have El: "?J + ?L + 80 \<le> E" and Eu: "E \<le> ?J + ?L + 114"
    using easterSunday_year_bounds [OF Y1] by (simp_all add: E_def)
  have L: "0 \<le> ?L" "?L \<le> 1" using InLeapYear_range [of "Y + 1"] by auto
  have adv: "filter ?P (adventEntries Y) = []"
  proof (rule filter_none)
    fix e assume "e \<in> set (adventEntries Y)"
    from adventEntries_dates(2) [OF this] nearestSunday_near(2) [of "makeDate Y 11 30"]
    show "\<not> date e = E - 2" using El L Y by (simp add: makeDate_november30)
  qed
  have chr: "filter ?P (christmasEntries Y) = []"
  proof (rule filter_none)
    fix e assume "e \<in> set (christmasEntries Y)"
    from christmasEntries_dates(2) [OF Y this] show "\<not> date e = E - 2" using El L by simp
  qed
  have epi: "filter ?P (epiphanyEntries Y E) = []"
  proof (rule filter_none)
    fix e assume "e \<in> set (epiphanyEntries Y E)"
    then have "e = add (makeDate (Y + 1) 1 6) ''loppiainen'' ''feast'' \<or>
        e \<in> set (epiphanySundays (sundayOnOrAfter (addDays (makeDate (Y + 1) 1 6) 1)) (addDays E (- 63)) 1)"
      by (auto simp: epiphanyEntries_def Let_def)
    then show "\<not> date e = E - 2"
    proof
      assume "e = add (makeDate (Y + 1) 1 6) ''loppiainen'' ''feast''"
      then show ?thesis using El L Y by (simp add: makeDate_next monthStart_def)
    next
      assume "e \<in> set (epiphanySundays (sundayOnOrAfter (addDays (makeDate (Y + 1) 1 6) 1)) (addDays E (- 63)) 1)"
      from epiphanySundays_dates [OF this] show ?thesis by simp
    qed
  qed
  have pre: "filter ?P (preLentEntries E) = []" by (simp add: preLentEntries_def)
  have lent: "filter ?P (lentEntries E) = []" by (simp add: lentEntries_def upto_1_5)
  have holy: "filter ?P (holyWeekEntries E) =
         [add (addDays E (- 2)) ''pitkaperjantai'' ''feast'',
          add (addDays E (- 2)) ''jeesuksen-kuolinhetki'' ''service'',
          add (addDays E (- 2)) ''pitkaperjantain-ilta'' ''service'']"
    by (simp add: holyWeekEntries_def)
  have eas: "filter ?P (easterEntries E) = []" by (simp add: easterEntries_def upto_1_6)
  have pen: "filter ?P (pentecostEntries E) = []"
    by (simp add: pentecostEntries_def Let_def addWeekdays_def upto_1_6)
  have psu: "filter ?P (pentecostSundayEntries Y E) = []"
  proof (rule filter_none)
    fix e assume "e \<in> set (pentecostSundayEntries Y E)"
    from pentecostSundayEntries_dates_ge [OF this] show "\<not> date e = E - 2" by simp
  qed
  have spe: "filter ?P (specialEntries Y E) = []"
  proof (rule filter_none)
    fix e assume "e \<in> set (specialEntries Y E)"
    then show "\<not> date e = E - 2"
      using El Eu L Y sundayOnOrAfter_near(1) [of "makeDate (Y + 1) 9 29"]
      by (auto simp: specialEntries_def Let_def makeDate_next monthStart_def split: if_splits)
  qed
  show ?thesis
    unfolding generatedEntries_def Let_def E_def [symmetric] filter_append
      adv chr epi pre lent holy eas pen psu spe
    by simp
qed

lemma getChurchYearStart_goodFriday:
  assumes "100 \<le> Y + 1"
  shows "getChurchYearStart (easterSunday (Y + 1) - 2) = Y"
proof -
  let ?g = "easterSunday (Y + 1) - 2"
  note E = easterSunday_year_bounds [OF assms]
  have L: "0 \<le> InLeapYear (Y + 1)" "InLeapYear (Y + 1) \<le> 1"
    using InLeapYear_range [of "Y + 1"] by auto
  have "YearFromTime (DayFromYear (Y + 1) + (?g - DayFromYear (Y + 1))) = Y + 1"
    by (rule YearFromTime_in_year) (use E L in simp_all)
  then have y: "YearFromTime ?g = Y + 1" by simp
  have "?g < nearestSunday (makeDate (Y + 1) 11 30)"
    using advent1_bounds(1) [OF assms] E L by simp
  then show ?thesis by (simp add: getChurchYearStart_cases y)
qed

lemma prioritize_goodFriday:
  "prioritizeEntries [add g s ''feast'', add g s' ''service'', add g s'' ''service''] =
   [add g s ''feast'', add g s' ''service'', add g s'' ''service'']"
  by (simp add: prioritizeEntries_def priority_def)

lemma sorted_hd_min: "sorted (map f (h # rest)) \<Longrightarrow> e \<in> set (h # rest) \<Longrightarrow> f h \<le> f e"
  by auto

lemma resolveDate_match:
  fixes db :: daysBySlug and cache :: calendarCache and arg :: dateArg
  assumes v: "cacheValid cache"
  defines "d \<equiv> dateOf arg"
  defines "S \<equiv> getChurchYearStart d"
  defines "matches \<equiv> filter (\<lambda>e. dateStr e = formatDate d) (generateChurchYear S)"
  defines "r \<equiv> fst (resolveDate db cache arg)"
  assumes ne: "matches \<noteq> []"
  shows "\<exists>h rest.
            holyDay r = Val (enrichEntry db h (getYearCycle S)) \<and>
            additionalServices r = Val (map (\<lambda>e. enrichEntry db e (getYearCycle S)) rest) \<and>
            mset (h # rest) = mset matches \<and>
            sorted (map (\<lambda>e. priority (type e)) (h # rest)) \<and>
            (\<forall>p. filter (\<lambda>e. priority (type e) = p) (h # rest) =
                 filter (\<lambda>e. priority (type e) = p) matches) \<and>
            (\<forall>e \<in> set matches. priority (type h) \<le> priority (type e)) \<and>
            h = hd (filter (\<lambda>e. priority (type e) = priority (type h)) matches) \<and>
            matches = filter (\<lambda>e. date e = d) (generatedEntries S)"
proof -
  define ps where "ps = prioritizeEntries matches"
  have "ps \<noteq> []" using ne prioritizeEntries_props(4) [of matches] by (simp add: ps_def)
  then obtain h rest where ps: "ps = h # rest" by (cases ps) auto
  note ne' = ne [unfolded matches_def S_def d_def]
  have 1: "holyDay r = Val (enrichEntry db h (getYearCycle S))"
    unfolding r_def resolveDate_result(5) [OF v ne']
    using ps by (simp add: ps_def matches_def S_def d_def)
  have 2: "additionalServices r = Val (map (\<lambda>e. enrichEntry db e (getYearCycle S)) rest)"
    unfolding r_def resolveDate_result(6) [OF v ne']
    using ps by (simp add: ps_def matches_def S_def d_def)
  have 3: "mset (h # rest) = mset matches"
    using prioritizeEntries_props(2) [of matches] by (simp add: ps_def [symmetric] ps)
  have 4: "sorted (map (\<lambda>e. priority (type e)) (h # rest))"
    using prioritizeEntries_props(1) [of matches] by (simp add: ps_def [symmetric] ps)
  have 5: "\<forall>p. filter (\<lambda>e. priority (type e) = p) (h # rest) =
      filter (\<lambda>e. priority (type e) = p) matches"
    using prioritizeEntries_props(3) [of _ matches] by (simp add: ps_def [symmetric] ps)
  have s: "set (h # rest) = set matches" using 3 by (rule mset_eq_setD)
  have 6: "\<forall>e \<in> set matches. priority (type h) \<le> priority (type e)"
  proof
    fix e assume "e \<in> set matches"
    then have "e \<in> set (h # rest)" using s by simp
    from sorted_hd_min [OF 4 this] show "priority (type h) \<le> priority (type e)" .
  qed
  have "filter (\<lambda>e. priority (type e) = priority (type h)) (h # rest) =
      h # filter (\<lambda>e. priority (type e) = priority (type h)) rest" by simp
  moreover from 5 have "filter (\<lambda>e. priority (type e) = priority (type h)) (h # rest) =
      filter (\<lambda>e. priority (type e) = priority (type h)) matches" by (rule spec)
  ultimately have "filter (\<lambda>e. priority (type e) = priority (type h)) matches =
      h # filter (\<lambda>e. priority (type e) = priority (type h)) rest"
    by (simp only:)
  then have 7: "h = hd (filter (\<lambda>e. priority (type e) = priority (type h)) matches)" by simp
  have 8: "matches = filter (\<lambda>e. date e = d) (generatedEntries S)"
    unfolding matches_def by (rule matches_generation_order)
  show ?thesis
    by (intro exI [of _ h] exI [of _ rest] conjI 1 2 3 4 5 6 7 8)
qed

lemma resolveDate_goodFriday:
  fixes db :: daysBySlug and cache :: calendarCache
  assumes v: "cacheValid cache" and Y: "100 \<le> Y"
  defines "g \<equiv> addDays (easterSunday (Y + 1)) (- 2)"
  defines "r \<equiv> fst (resolveDate db cache (DateObject g))"
  shows "holyDay r = Val (enrichEntry db (add g ''pitkaperjantai'' ''feast'') (getYearCycle Y))"
    and "additionalServices r =
              Val [enrichEntry db (add g ''jeesuksen-kuolinhetki'' ''service'') (getYearCycle Y),
                   enrichEntry db (add g ''pitkaperjantain-ilta'' ''service'') (getYearCycle Y)]"
proof -
  have g': "g = easterSunday (Y + 1) - 2" by (simp add: g_def)
  have Y1: "100 \<le> Y + 1" using Y by simp
  have S: "getChurchYearStart (dateOf (DateObject g)) = Y"
    using getChurchYearStart_goodFriday [OF Y1] by (simp add: g')
  have "filter (\<lambda>e. dateStr e = formatDate g) (generateChurchYear Y) =
      [add g ''pitkaperjantai'' ''feast'', add g ''jeesuksen-kuolinhetki'' ''service'',
       add g ''pitkaperjantain-ilta'' ''service'']"
    unfolding matches_generation_order g' using goodFriday_matches [OF Y] by simp
  then have m: "filter (\<lambda>e. dateStr e = formatDate (dateOf (DateObject g)))
      (generateChurchYear (getChurchYearStart (dateOf (DateObject g)))) =
      [add g ''pitkaperjantai'' ''feast'', add g ''jeesuksen-kuolinhetki'' ''service'',
       add g ''pitkaperjantain-ilta'' ''service'']"
    unfolding S by simp
  then have ne: "filter (\<lambda>e. dateStr e = formatDate (dateOf (DateObject g)))
      (generateChurchYear (getChurchYearStart (dateOf (DateObject g)))) \<noteq> []" by simp
  show "holyDay r = Val (enrichEntry db (add g ''pitkaperjantai'' ''feast'') (getYearCycle Y))"
    using resolveDate_result(5) [OF v ne] m S by (simp add: r_def prioritize_goodFriday)
  show "additionalServices r =
              Val [enrichEntry db (add g ''jeesuksen-kuolinhetki'' ''service'') (getYearCycle Y),
                   enrichEntry db (add g ''pitkaperjantain-ilta'' ''service'') (getYearCycle Y)]"
    using resolveDate_result(6) [OF v ne] m S by (simp add: r_def prioritize_goodFriday)
qed

text \<open>An enriched record carries slug, date string and type of the entry it is made from.\<close>

lemma enrichEntry_fields:
  "e_slug (enrichEntry db e c) = slug e"
  "e_type (enrichEntry db e c) = type e"
  "e_date (enrichEntry db e c) = dateStr e"
  by (simp_all add: enrichEntry_def Let_def)

lemma enrichEntry_map_fields:
  "map e_slug (map (\<lambda>e. enrichEntry db e c) es) = map slug es"
  "map e_type (map (\<lambda>e. enrichEntry db e c) es) = map type es"
  "map e_date (map (\<lambda>e. enrichEntry db e c) es) = map dateStr es"
  by (simp_all add: enrichEntry_fields comp_def)

lemma resolveDate_match_fields:
  fixes db :: daysBySlug and cache :: calendarCache and arg :: dateArg
  assumes v: "cacheValid cache"
  defines "d \<equiv> dateOf arg"
  defines "S \<equiv> getChurchYearStart d"
  defines "matches \<equiv> filter (\<lambda>e. dateStr e = formatDate d) (generateChurchYear S)"
  defines "r \<equiv> fst (resolveDate db cache arg)"
  assumes ne: "matches \<noteq> []"
  shows "\<exists>h rest.
            holyDay r = Val (enrichEntry db h (getYearCycle S)) \<and>
            additionalServices r = Val (map (\<lambda>e. enrichEntry db e (getYearCycle S)) rest) \<and>
            (\<exists>x xs. holyDay r = Val x \<and> additionalServices r = Val xs \<and>
               e_slug x = slug h \<and> e_type x = type h \<and> e_date x = dateStr h \<and>
               map e_slug xs = map slug rest \<and> map e_type xs = map type rest \<and>
               map e_date xs = map dateStr rest) \<and>
            (\<forall>e \<in> set (h # rest). dateStr e = formatDate d \<and> date e = d) \<and>
            mset (h # rest) = mset matches \<and>
            sorted (map (\<lambda>e. priority (type e)) (h # rest)) \<and>
            (\<forall>p. filter (\<lambda>e. priority (type e) = p) (h # rest) =
                 filter (\<lambda>e. priority (type e) = p) matches) \<and>
            (\<forall>e \<in> set matches. priority (type h) \<le> priority (type e)) \<and>
            h = hd (filter (\<lambda>e. priority (type e) = priority (type h)) matches) \<and>
            matches = filter (\<lambda>e. date e = d) (generatedEntries S)"
proof -
  from resolveDate_match [OF v ne [unfolded matches_def S_def d_def], of db]
  obtain h rest where
    1: "holyDay r = Val (enrichEntry db h (getYearCycle S))" and
    2: "additionalServices r = Val (map (\<lambda>e. enrichEntry db e (getYearCycle S)) rest)" and
    3: "mset (h # rest) = mset matches" and
    4: "sorted (map (\<lambda>e. priority (type e)) (h # rest))" and
    5: "\<forall>p. filter (\<lambda>e. priority (type e) = p) (h # rest) =
                 filter (\<lambda>e. priority (type e) = p) matches" and
    6: "\<forall>e \<in> set matches. priority (type h) \<le> priority (type e)" and
    7: "h = hd (filter (\<lambda>e. priority (type e) = priority (type h)) matches)" and
    8: "matches = filter (\<lambda>e. date e = d) (generatedEntries S)"
    unfolding matches_def S_def d_def r_def by (elim exE conjE)
  have 9: "\<exists>x xs. holyDay r = Val x \<and> additionalServices r = Val xs \<and>
               e_slug x = slug h \<and> e_type x = type h \<and> e_date x = dateStr h \<and>
               map e_slug xs = map slug rest \<and> map e_type xs = map type rest \<and>
               map e_date xs = map dateStr rest"
    by (intro exI [of _ "enrichEntry db h (getYearCycle S)"]
          exI [of _ "map (\<lambda>e. enrichEntry db e (getYearCycle S)) rest"] conjI 1 2
          enrichEntry_fields enrichEntry_map_fields)
  have s: "set (h # rest) = set matches" using 3 by (rule mset_eq_setD)
  have 10: "\<forall>e \<in> set (h # rest). dateStr e = formatDate d \<and> date e = d"
  proof
    fix e assume "e \<in> set (h # rest)"
    then have m: "e \<in> set matches" unfolding s .
    then have "dateStr e = formatDate d" by (simp add: matches_def)
    moreover from m have "date e = d" by (subst (asm) 8) simp
    ultimately show "dateStr e = formatDate d \<and> date e = d" by simp
  qed
  show ?thesis
    by (intro exI [of _ h] exI [of _ rest] conjI 1 2 3 4 5 6 7 8 9 10)
qed

lemma resolveDate_goodFriday_fields:
  fixes db :: daysBySlug and cache :: calendarCache
  assumes v: "cacheValid cache" and Y: "100 \<le> Y"
  defines "g \<equiv> addDays (easterSunday (Y + 1)) (- 2)"
  defines "r \<equiv> fst (resolveDate db cache (DateObject g))"
  shows "\<exists>x s1 s2. holyDay r = Val x \<and> additionalServices r = Val [s1, s2] \<and>
           e_slug x = ''pitkaperjantai'' \<and> e_type x = ''feast'' \<and> e_date x = formatDate g \<and>
           e_slug s1 = ''jeesuksen-kuolinhetki'' \<and> e_type s1 = ''service'' \<and>
           e_date s1 = formatDate g \<and>
           e_slug s2 = ''pitkaperjantain-ilta'' \<and> e_type s2 = ''service'' \<and>
           e_date s2 = formatDate g"
proof -
  note G = resolveDate_goodFriday [OF v Y, of db, folded g_def, folded r_def]
  show ?thesis
    by (intro exI [of _ "enrichEntry db (add g ''pitkaperjantai'' ''feast'') (getYearCycle Y)"]
          exI [of _ "enrichEntry db (add g ''jeesuksen-kuolinhetki'' ''service'') (getYearCycle Y)"]
          exI [of _ "enrichEntry db (add g ''pitkaperjantain-ilta'' ''service'') (getYearCycle Y)"]
          conjI G)
       (simp_all add: enrichEntry_fields)
qed


section \<open>Claims\<close>

text \<open>
  C4. \<open>easterSunday(2025)\<close> is April 20, 2025 and \<open>easterSunday(2026)\<close> is April 5,
  2026: the returned dates are the ones \<open>makeDate\<close> builds for these days, and they
  print as 2025-04-20 and 2026-04-05. \<open>easterSunday\<close> is a function of the year alone.
\<close>

theorem easterSunday_reference_values:
  "easterSunday 2025 = makeDate 2025 4 20 \<and> formatDate (easterSunday 2025) = (2025, 4, 20) \<and>
   easterSunday 2026 = makeDate 2026 4 5 \<and> formatDate (easterSunday 2026) = (2026, 4, 5)"
  by code_simp

text \<open>
  C9. For every start year from 0 on, \<open>getYearCycle\<close> is the year modulo 3 plus 1, it
  has period 3, and three consecutive start years cover the cycles 1, 2 and 3. (For a
  negative year the remainder operator gives a result that is not positive.)
\<close>

theorem getYearCycle_periodic:
  assumes "0 \<le> Y"
  shows "getYearCycle Y = Y mod 3 + 1 \<and> getYearCycle Y = getYearCycle (Y + 3) \<and>
         {getYearCycle Y, getYearCycle (Y + 1), getYearCycle (Y + 2)} = {1, 2, 3}"
proof -
  have c: "getYearCycle k = k mod 3 + 1" if "0 \<le> k" for k
    using that by (simp add: getYearCycle_def js_rem_nonneg)
  have m: "Y mod 3 = 0 \<or> Y mod 3 = 1 \<or> Y mod 3 = 2" by presburger
  have s1: "(Y + 1) mod 3 = (if Y mod 3 = 2 then 0 else Y mod 3 + 1)" by presburger
  have s2: "(Y + 2) mod 3 = (if Y mod 3 = 0 then 2 else Y mod 3 - 1)" by presburger
  have s3: "(Y + 3) mod 3 = Y mod 3" by presburger
  show ?thesis
    using assms m by (auto simp: c s1 s2 s3)
qed

theorem getYearCycle_periodic_witness:
  "(0::int) \<le> 2025 \<and> getYearCycle 2025 = 1 \<and> getYearCycle 2025 = getYearCycle 2028 \<and>
   {getYearCycle 2025, getYearCycle 2026, getYearCycle 2027} = {1, 2, 3}"
  using getYearCycle_periodic [of 2025] by (simp add: getYearCycle_def js_rem_def)

text \<open>
  C5. For every start year the generated calendar contains Ascension Day
  (\<open>helatorstai\<close>, a feast) 39 days after Easter Sunday of the next calendar year,
  Pentecost Eve (\<open>helluntaiaatto\<close>, a service) 48 days after it and Pentecost
  (\<open>helluntaipaiva\<close>, a feast) 49 days after it; each of the three slugs is given
  to exactly one entry.
\<close>

theorem ascension_pentecost_dates:
  "filter (\<lambda>e. slug e = ''helatorstai'') (generateChurchYear Y) =
     [add (addDays (easterSunday (Y + 1)) 39) ''helatorstai'' ''feast''] \<and>
   filter (\<lambda>e. slug e = ''helluntaiaatto'') (generateChurchYear Y) =
     [add (addDays (easterSunday (Y + 1)) 48) ''helluntaiaatto'' ''service''] \<and>
   filter (\<lambda>e. slug e = ''helluntaipaiva'') (generateChurchYear Y) =
     [add (addDays (easterSunday (Y + 1)) 49) ''helluntaipaiva'' ''feast''] \<and>
   date (add (addDays (easterSunday (Y + 1)) 39) ''helatorstai'' ''feast'') =
     easterSunday (Y + 1) + 39 \<and>
   date (add (addDays (easterSunday (Y + 1)) 48) ''helluntaiaatto'' ''service'') =
     easterSunday (Y + 1) + 48 \<and>
   date (add (addDays (easterSunday (Y + 1)) 49) ''helluntaipaiva'' ''feast'') =
     easterSunday (Y + 1) + 49"
  using filter_he_calendar [of "''latorstai''" Y]
        filter_he_calendar [of "''lluntaiaatto''" Y]
        filter_he_calendar [of "''lluntaipaiva''" Y]
  by simp

text \<open>
  C3. The claim that every generated entry lies between the 1st Advent Sunday of the
  start year (inclusive) and the 1st Advent Sunday of the next year (exclusive) fails:
  the calendar of 2025 holds \<open>itsenaisyyspaiva\<close> on 2026-12-06, although the next
  church year begins on 2026-11-29. December 6 falls after the 1st Advent Sunday in
  every year (\<open>december6_after_advent\<close>), and every other entry lies in the interval
  (\<open>entries_within_church_year\<close>).
\<close>

theorem itsenaisyyspaiva_outside_church_year:
  "(\<exists>e \<in> set (generateChurchYear 2025).
      slug e = ''itsenaisyyspaiva'' \<and> dateStr e = (2026, 12, 6) \<and>
      nearestSunday (makeDate 2026 11 30) \<le> date e) \<and>
   formatDate (nearestSunday (makeDate 2026 11 30)) = (2026, 11, 29)"
proof -
  let ?e = "add (makeDate 2026 12 6) ''itsenaisyyspaiva'' ''special''"
  have "?e \<in> set (generateChurchYear 2025)" using itsenaisyyspaiva_generated [of 2025] by simp
  moreover have "dateStr ?e = (2026, 12, 6)" unfolding add_def by code_simp
  moreover have "nearestSunday (makeDate 2026 11 30) \<le> date ?e"
    using december6_after_advent [of 2026] by simp
  moreover have "formatDate (nearestSunday (makeDate 2026 11 30)) = (2026, 11, 29)" by code_simp
  moreover have "slug ?e = ''itsenaisyyspaiva''" by simp
  ultimately show ?thesis by blast
qed

text \<open>
  C6. When Easter Sunday of the next calendar year lies between March 22 and April 25,
  the calendar of a start year holds at least one and at most six Sundays after
  Epiphany; each is dated before Easter minus 63 days; and the \<open>i\<close>-th of them (from
  0) is numbered \<open>i + 1\<close> and falls \<open>7 i\<close> days after the first Sunday that
  follows January 6.
\<close>

theorem epiphany_sundays_count:
  assumes "makeDate (Y + 1) 3 22 \<le> easterSunday (Y + 1)"
    and "easterSunday (Y + 1) \<le> makeDate (Y + 1) 4 25"
  shows "let es = filter isEpiphanySunday (generateChurchYear Y)
         in 1 \<le> length es \<and> length es \<le> 6 \<and>
            (\<forall>e \<in> set es. date e < addDays (easterSunday (Y + 1)) (- 63)) \<and>
            (\<exists>fs. dayOfWeek fs = 0 \<and> makeDate (Y + 1) 1 6 < fs \<and>
               fs \<le> makeDate (Y + 1) 1 6 + 7 \<and>
               (\<forall>i < length es.
                  es ! i = add (addDays fs (7 * int i))
                             (numStr (int i + 1) @ ''-sunnuntai-loppiaisesta'') ''sunday''))"
proof -
  define ep where "ep = makeDate (Y + 1) 1 6"
  define fs where "fs = sundayOnOrAfter (addDays ep 1)"
  define t where "t = addDays (easterSunday (Y + 1)) (- 63)"
  define es where "es = filter isEpiphanySunday (generateChurchYear Y)"
  have es: "es = epiphanySundays fs t 1"
    by (simp add: es_def epiphanySundays_of_calendar fs_def t_def ep_def)
  have fs: "dayOfWeek fs = 0" "ep < fs" "fs \<le> ep + 7"
    using sundayOnOrAfter_is_sunday [of "ep + 1"] sundayOnOrAfter_near [of "ep + 1"]
    by (simp_all add: fs_def)
  have "ep + 75 \<le> makeDate (Y + 1) 3 22"
    unfolding makeDate_march22 ep_def
    using InLeapYear_range [of "if 0 \<le> Y + 1 \<and> Y + 1 \<le> 99 then 1900 + (Y + 1) else Y + 1"]
    by auto
  then have "ep + 75 \<le> easterSunday (Y + 1)" using assms(1) by simp
  then have lt: "fs < t" using fs by (simp add: t_def)
  have n: "es \<noteq> []" unfolding es using lt by (intro epiphanySundays_nonempty) simp_all
  have l6: "length es \<le> 6" unfolding es using epiphanySundays_length [of fs t 1] by simp
  have d: "\<forall>e \<in> set es. date e < t" unfolding es using epiphanySundays_dates by blast
  have i: "\<forall>i < length es. es ! i =
      add (addDays fs (7 * int i)) (numStr (int i + 1) @ ''-sunnuntai-loppiaisesta'') ''sunday''"
    unfolding es using epiphanySundays_nth [of _ fs t 1] by (simp add: add.commute)
  have "1 \<le> length es" using n by (cases es) simp_all
  then show ?thesis
    using l6 d i fs unfolding es_def [symmetric] Let_def t_def [symmetric] ep_def [symmetric]
    by blast
qed

theorem epiphany_sundays_count_witness:
  "makeDate 2026 3 22 \<le> easterSunday 2026 \<and> easterSunday 2026 \<le> makeDate 2026 4 25 \<and>
   map slug (filter isEpiphanySunday (generateChurchYear 2025)) =
     [''1-sunnuntai-loppiaisesta'', ''2-sunnuntai-loppiaisesta'', ''3-sunnuntai-loppiaisesta''] \<and>
   map dateStr (filter isEpiphanySunday (generateChurchYear 2025)) =
     [(2026, 1, 11), (2026, 1, 18), (2026, 1, 25)] \<and>
   formatDate (addDays (easterSunday 2026) (- 63)) = (2026, 2, 1)"
proof -
  have a: "makeDate (2025 + 1) 3 22 \<le> easterSunday (2025 + 1)" by code_simp
  have b: "easterSunday (2025 + 1) \<le> makeDate (2025 + 1) 4 25" by code_simp
  note T = epiphany_sundays_count [OF a b]
  have c: "map slug (filter isEpiphanySunday (generateChurchYear 2025)) =
     [''1-sunnuntai-loppiaisesta'', ''2-sunnuntai-loppiaisesta'', ''3-sunnuntai-loppiaisesta'']"
    unfolding epiphanySundays_of_calendar by code_simp
  have d: "map dateStr (filter isEpiphanySunday (generateChurchYear 2025)) =
     [(2026, 1, 11), (2026, 1, 18), (2026, 1, 25)]"
    unfolding epiphanySundays_of_calendar by code_simp
  have e: "formatDate (addDays (easterSunday 2026) (- 63)) = (2026, 2, 1)" by code_simp
  show ?thesis using T a b c d e by simp
qed

text \<open>
  C2. For every start year whose next calendar year is 100 or later, the Sundays after
  Pentecost are generated every 7 days from Pentecost + 14; there are at least two; the
  last one is \<open>tuomiosunnuntai\<close>, dated 7 days before the next 1st Advent Sunday, and
  the second-to-last is \<open>valvomisen-sunnuntai\<close>, dated 14 days before it; all of them
  are in the calendar. The two end-of-year labels are chosen for the last two slots
  whatever the running index is, so they win over the labels of index 6, 8 and 22.
\<close>

theorem end_of_year_sundays:
  assumes "100 \<le> Y + 1"
  shows "let E = easterSunday (Y + 1);
             nextAdvent1 = nearestSunday (makeDate (Y + 1) 11 30);
             pe = pentecostSundayEntries Y E
         in 2 \<le> length pe \<and> set pe \<subseteq> set (generateChurchYear Y) \<and>
            (\<forall>i < length pe. date (pe ! i) = addDays (addDays E 49) 14 + 7 * int i) \<and>
            last pe = add (addDays nextAdvent1 (- 7)) ''tuomiosunnuntai'' ''sunday'' \<and>
            pe ! (length pe - 2) = add (addDays nextAdvent1 (- 14)) ''valvomisen-sunnuntai'' ''sunday'' \<and>
            (\<forall>n i d. int n - int i = 1 \<longrightarrow>
               pentecostSundayEntry n i d = add d ''tuomiosunnuntai'' ''sunday'') \<and>
            (\<forall>n i d. int n - int i = 2 \<longrightarrow>
               pentecostSundayEntry n i d = add d ''valvomisen-sunnuntai'' ''sunday'')"
  using pentecostSundayEntries_structure [OF assms] pentecostSundayEntries_subset [of Y]
    pentecostSundayEntry_end
  by (simp add: Let_def)

theorem end_of_year_sundays_witness:
  "(100::int) \<le> 2037 + 1 \<and>
   last (pentecostSundayEntries 2037 (easterSunday (2037 + 1))) =
     add (addDays (nearestSunday (makeDate (2037 + 1) 11 30)) (- 7)) ''tuomiosunnuntai'' ''sunday'' \<and>
   formatDate (addDays (nearestSunday (makeDate (2037 + 1) 11 30)) (- 7)) = (2038, 11, 21) \<and>
   length (pentecostSundayEntries 2037 (easterSunday (2037 + 1))) = 22 \<and>
   pentecostSundayEntries 2037 (easterSunday (2037 + 1)) ! 20 =
     add (addDays (nearestSunday (makeDate (2037 + 1) 11 30)) (- 14)) ''valvomisen-sunnuntai'' ''sunday'' \<and>
   formatDate (addDays (nearestSunday (makeDate (2037 + 1) 11 30)) (- 14)) = (2038, 11, 14)"
proof -
  have h: "(100::int) \<le> 2037 + 1" by simp
  note T = end_of_year_sundays [OF h, unfolded Let_def]
  have l: "length (pentecostSundayEntries 2037 (easterSunday (2037 + 1))) = 22" by code_simp
  have a: "last (pentecostSundayEntries 2037 (easterSunday (2037 + 1))) =
     add (addDays (nearestSunday (makeDate (2037 + 1) 11 30)) (- 7)) ''tuomiosunnuntai'' ''sunday''"
    using T by blast
  have b: "pentecostSundayEntries 2037 (easterSunday (2037 + 1)) !
      (length (pentecostSundayEntries 2037 (easterSunday (2037 + 1))) - 2) =
     add (addDays (nearestSunday (makeDate (2037 + 1) 11 30)) (- 14)) ''valvomisen-sunnuntai'' ''sunday''"
    using T by blast
  have b': "pentecostSundayEntries 2037 (easterSunday (2037 + 1)) ! 20 =
     add (addDays (nearestSunday (makeDate (2037 + 1) 11 30)) (- 14)) ''valvomisen-sunnuntai'' ''sunday''"
    using b unfolding l by simp
  have f1: "formatDate (addDays (nearestSunday (makeDate (2037 + 1) 11 30)) (- 7)) = (2038, 11, 21)"
    by code_simp
  have f2: "formatDate (addDays (nearestSunday (makeDate (2037 + 1) 11 30)) (- 14)) = (2038, 11, 14)"
    by code_simp
  show ?thesis by (intro conjI h a f1 l b' f2)
qed





text \<open>
  C8. The claim that every result of \<open>resolveDate\<close> holds an \<open>additionalServices\<close>
  list fails on a date without entry: for 2026-02-03 the result has \<open>holyDay\<close> null
  and \<open>precedingSunday\<close> present, but no \<open>additionalServices\<close> property, while the
  branch for a date with an entry (2025-12-25) returns the empty list.
\<close>

theorem additionalServices_absent_without_match:
  "let r = fst (resolveDate db Map.empty (DateString (2026, 2, 3)));
       r' = fst (resolveDate db Map.empty (DateString (2025, 12, 25)))
   in r_date r = (2026, 2, 3) \<and> holyDay r = Null \<and> additionalServices r = Undefined \<and>
      precedingSunday r \<noteq> Undefined \<and>
      holyDay r' =
        Val (enrichEntry db (add (makeDate 2025 12 25) ''joulupaiva'' ''feast'') (getYearCycle 2025)) \<and>
      additionalServices r' = Val []"
proof -
  let ?arg = "DateString (2026, 2, 3)"
  let ?arg' = "DateString (2025, 12, 25)"
  have v: "cacheValid Map.empty" by (rule cacheValid_empty)
  have g: "getChurchYearStart (dateOf ?arg) = 2025" by code_simp
  have g': "getChurchYearStart (dateOf ?arg') = 2025" by code_simp
  have m: "filter (\<lambda>e. dateStr e = formatDate (dateOf ?arg))
     (generateChurchYear (getChurchYearStart (dateOf ?arg))) = []"
    unfolding g using no_entry_2026_02_03 by simp
  have m': "filter (\<lambda>e. dateStr e = formatDate (dateOf ?arg'))
     (generateChurchYear (getChurchYearStart (dateOf ?arg'))) =
     [add (makeDate 2025 12 25) ''joulupaiva'' ''feast'']"
    unfolding g' using christmas_day_2025 by simp
  then have ne: "filter (\<lambda>e. dateStr e = formatDate (dateOf ?arg'))
     (generateChurchYear (getChurchYearStart (dateOf ?arg'))) \<noteq> []" by simp
  have f: "formatDate (makeDate 2026 2 3) = (2026, 2, 3)" by code_simp
  have 1: "r_date (fst (resolveDate db Map.empty ?arg)) = (2026, 2, 3)"
    using f by (simp add: resolveDate_def Let_def parseDate_def split_beta)
  have 2: "holyDay (fst (resolveDate db Map.empty ?arg)) = Null"
    by (rule resolveDate_result(1) [OF v m])
  have 3: "additionalServices (fst (resolveDate db Map.empty ?arg)) = Undefined"
    by (rule resolveDate_result(2) [OF v m])
  have 4: "precedingSunday (fst (resolveDate db Map.empty ?arg)) \<noteq> Undefined"
    unfolding resolveDate_result(3) [OF v m] by (simp split: option.split)
  have p: "prioritizeEntries [e] = [e]" for e by (simp add: prioritizeEntries_def)
  have 5: "holyDay (fst (resolveDate db Map.empty ?arg')) =
      Val (enrichEntry db (add (makeDate 2025 12 25) ''joulupaiva'' ''feast'') (getYearCycle 2025))"
    using resolveDate_result(5) [OF v ne, of db] m' g' by (simp add: p)
  have 6: "additionalServices (fst (resolveDate db Map.empty ?arg')) = Val []"
    using resolveDate_result(6) [OF v ne, of db] m' g' by (simp add: p)
  show ?thesis unfolding Let_def by (intro conjI 1 2 3 4 5 6)
qed

text \<open>
  C1. For every valid cache and every date on which the selected calendar has an entry,
  \<open>holyDay\<close> and \<open>additionalServices\<close> together are the matching entries, each
  enriched, ordered by type priority (feast 1, special 2, sunday 3, weekday 4,
  service 5); entries of one priority keep the order of the matching entries, which
  is the order of generation; so \<open>holyDay\<close> is the first generated entry among
  those of least priority number. The returned \<open>holyDay\<close> carries slug, type and date
  string of that entry, and the returned additional services carry, in order, slug, type
  and date string of the remaining entries; all of them are dated on the requested day.
  On Good Friday of every church year from 100 on \<open>holyDay\<close> has slug
  \<open>pitkaperjantai\<close> and type \<open>feast\<close>, and \<open>additionalServices\<close> holds the two
  services of that day, \<open>jeesuksen-kuolinhetki\<close> and \<open>pitkaperjantain-ilta\<close>.
\<close>

theorem resolveDate_precedence:
  fixes db :: daysBySlug and cache :: calendarCache and arg :: dateArg and Y :: int
  assumes "cacheValid cache"
  shows
    "(let d = dateOf arg; S = getChurchYearStart d;
          matches = filter (\<lambda>e. dateStr e = formatDate d) (generateChurchYear S);
          r = fst (resolveDate db cache arg)
      in matches \<noteq> [] \<longrightarrow>
         (\<exists>h rest.
            holyDay r = Val (enrichEntry db h (getYearCycle S)) \<and>
            additionalServices r = Val (map (\<lambda>e. enrichEntry db e (getYearCycle S)) rest) \<and>
            (\<exists>x xs. holyDay r = Val x \<and> additionalServices r = Val xs \<and>
               e_slug x = slug h \<and> e_type x = type h \<and> e_date x = dateStr h \<and>
               map e_slug xs = map slug rest \<and> map e_type xs = map type rest \<and>
               map e_date xs = map dateStr rest) \<and>
            (\<forall>e \<in> set (h # rest). dateStr e = formatDate d \<and> date e = d) \<and>
            mset (h # rest) = mset matches \<and>
            sorted (map (\<lambda>e. priority (type e)) (h # rest)) \<and>
            (\<forall>p. filter (\<lambda>e. priority (type e) = p) (h # rest) =
                 filter (\<lambda>e. priority (type e) = p) matches) \<and>
            (\<forall>e \<in> set matches. priority (type h) \<le> priority (type e)) \<and>
            h = hd (filter (\<lambda>e. priority (type e) = priority (type h)) matches) \<and>
            matches = filter (\<lambda>e. date e = d) (generatedEntries S))) \<and>
     priority ''feast'' = 1 \<and> priority ''special'' = 2 \<and> priority ''sunday'' = 3 \<and>
     priority ''weekday'' = 4 \<and> priority ''service'' = 5 \<and>
     (100 \<le> Y \<longrightarrow>
        (let g = addDays (easterSunday (Y + 1)) (- 2);
             r = fst (resolveDate db cache (DateObject g))
         in holyDay r = Val (enrichEntry db (add g ''pitkaperjantai'' ''feast'') (getYearCycle Y)) \<and>
            additionalServices r =
              Val [enrichEntry db (add g ''jeesuksen-kuolinhetki'' ''service'') (getYearCycle Y),
                   enrichEntry db (add g ''pitkaperjantain-ilta'' ''service'') (getYearCycle Y)] \<and>
            (\<exists>x s1 s2. holyDay r = Val x \<and> additionalServices r = Val [s1, s2] \<and>
               e_slug x = ''pitkaperjantai'' \<and> e_type x = ''feast'' \<and>
               e_date x = formatDate g \<and>
               e_slug s1 = ''jeesuksen-kuolinhetki'' \<and> e_type s1 = ''service'' \<and>
               e_date s1 = formatDate g \<and>
               e_slug s2 = ''pitkaperjantain-ilta'' \<and> e_type s2 = ''service'' \<and>
               e_date s2 = formatDate g)))"
proof -
  have A: "let d = dateOf arg; S = getChurchYearStart d;
          matches = filter (\<lambda>e. dateStr e = formatDate d) (generateChurchYear S);
          r = fst (resolveDate db cache arg)
      in matches \<noteq> [] \<longrightarrow>
         (\<exists>h rest.
            holyDay r = Val (enrichEntry db h (getYearCycle S)) \<and>
            additionalServices r = Val (map (\<lambda>e. enrichEntry db e (getYearCycle S)) rest) \<and>
            (\<exists>x xs. holyDay r = Val x \<and> additionalServices r = Val xs \<and>
               e_slug x = slug h \<and> e_type x = type h \<and> e_date x = dateStr h \<and>
               map e_slug xs = map slug rest \<and> map e_type xs = map type rest \<and>
               map e_date xs = map dateStr rest) \<and>
            (\<forall>e \<in> set (h # rest). dateStr e = formatDate d \<and> date e = d) \<and>
            mset (h # rest) = mset matches \<and>
            sorted (map (\<lambda>e. priority (type e)) (h # rest)) \<and>
            (\<forall>p. filter (\<lambda>e. priority (type e) = p) (h # rest) =
                 filter (\<lambda>e. priority (type e) = p) matches) \<and>
            (\<forall>e \<in> set matches. priority (type h) \<le> priority (type e)) \<and>
            h = hd (filter (\<lambda>e. priority (type e) = priority (type h)) matches) \<and>
            matches = filter (\<lambda>e. date e = d) (generatedEntries S))"
    unfolding Let_def
  proof (rule impI)
    assume "filter (\<lambda>e. dateStr e = formatDate (dateOf arg))
      (generateChurchYear (getChurchYearStart (dateOf arg))) \<noteq> []"
    from resolveDate_match_fields [OF assms this, of db]
    show "\<exists>h rest.
       holyDay (fst (resolveDate db cache arg)) =
         Val (enrichEntry db h (getYearCycle (getChurchYearStart (dateOf arg)))) \<and>
       additionalServices (fst (resolveDate db cache arg)) =
         Val (map (\<lambda>e. enrichEntry db e (getYearCycle (getChurchYearStart (dateOf arg)))) rest) \<and>
       (\<exists>x xs. holyDay (fst (resolveDate db cache arg)) = Val x \<and>
          additionalServices (fst (resolveDate db cache arg)) = Val xs \<and>
          e_slug x = slug h \<and> e_type x = type h \<and> e_date x = dateStr h \<and>
          map e_slug xs = map slug rest \<and> map e_type xs = map type rest \<and>
          map e_date xs = map dateStr rest) \<and>
       (\<forall>e \<in> set (h # rest). dateStr e = formatDate (dateOf arg) \<and> date e = dateOf arg) \<and>
       mset (h # rest) =
         mset (filter (\<lambda>e. dateStr e = formatDate (dateOf arg))
                (generateChurchYear (getChurchYearStart (dateOf arg)))) \<and>
       sorted (map (\<lambda>e. priority (type e)) (h # rest)) \<and>
       (\<forall>p. filter (\<lambda>e. priority (type e) = p) (h # rest) =
            filter (\<lambda>e. priority (type e) = p)
              (filter (\<lambda>e. dateStr e = formatDate (dateOf arg))
                (generateChurchYear (getChurchYearStart (dateOf arg))))) \<and>
       (\<forall>e \<in> set (filter (\<lambda>e. dateStr e = formatDate (dateOf arg))
                  (generateChurchYear (getChurchYearStart (dateOf arg)))).
           priority (type h) \<le> priority (type e)) \<and>
       h = hd (filter (\<lambda>e. priority (type e) = priority (type h))
                (filter (\<lambda>e. dateStr e = formatDate (dateOf arg))
                  (generateChurchYear (getChurchYearStart (dateOf arg))))) \<and>
       filter (\<lambda>e. dateStr e = formatDate (dateOf arg))
         (generateChurchYear (getChurchYearStart (dateOf arg))) =
       filter (\<lambda>e. date e = dateOf arg) (generatedEntries (getChurchYearStart (dateOf arg)))" .
  qed
  have P: "priority ''feast'' = 1" "priority ''special'' = 2" "priority ''sunday'' = 3"
    "priority ''weekday'' = 4" "priority ''service'' = 5"
    by (simp_all add: priority_def)
  have G: "100 \<le> Y \<longrightarrow>
        (let g = addDays (easterSunday (Y + 1)) (- 2);
             r = fst (resolveDate db cache (DateObject g))
         in holyDay r = Val (enrichEntry db (add g ''pitkaperjantai'' ''feast'') (getYearCycle Y)) \<and>
            additionalServices r =
              Val [enrichEntry db (add g ''jeesuksen-kuolinhetki'' ''service'') (getYearCycle Y),
                   enrichEntry db (add g ''pitkaperjantain-ilta'' ''service'') (getYearCycle Y)] \<and>
            (\<exists>x s1 s2. holyDay r = Val x \<and> additionalServices r = Val [s1, s2] \<and>
               e_slug x = ''pitkaperjantai'' \<and> e_type x = ''feast'' \<and>
               e_date x = formatDate g \<and>
               e_slug s1 = ''jeesuksen-kuolinhetki'' \<and> e_type s1 = ''service'' \<and>
               e_date s1 = formatDate g \<and>
               e_slug s2 = ''pitkaperjantain-ilta'' \<and> e_type s2 = ''service'' \<and>
               e_date s2 = formatDate g))"
    unfolding Let_def
  proof (intro impI conjI)
    assume Y: "100 \<le> Y"
    show "holyDay (fst (resolveDate db cache (DateObject (addDays (easterSunday (Y + 1)) (- 2))))) =
      Val (enrichEntry db (add (addDays (easterSunday (Y + 1)) (- 2)) ''pitkaperjantai'' ''feast'')
            (getYearCycle Y))"
      by (rule resolveDate_goodFriday(1) [OF assms Y])
    show "additionalServices
       (fst (resolveDate db cache (DateObject (addDays (easterSunday (Y + 1)) (- 2))))) =
      Val [enrichEntry db
            (add (addDays (easterSunday (Y + 1)) (- 2)) ''jeesuksen-kuolinhetki'' ''service'')
            (getYearCycle Y),
           enrichEntry db
            (add (addDays (easterSunday (Y + 1)) (- 2)) ''pitkaperjantain-ilta'' ''service'')
            (getYearCycle Y)]"
      by (rule resolveDate_goodFriday(2) [OF assms Y])
    show "\<exists>x s1 s2.
       holyDay (fst (resolveDate db cache (DateObject (addDays (easterSunday (Y + 1)) (- 2))))) =
         Val x \<and>
       additionalServices
         (fst (resolveDate db cache (DateObject (addDays (easterSunday (Y + 1)) (- 2))))) =
         Val [s1, s2] \<and>
       e_slug x = ''pitkaperjantai'' \<and> e_type x = ''feast'' \<and>
       e_date x = formatDate (addDays (easterSunday (Y + 1)) (- 2)) \<and>
       e_slug s1 = ''jeesuksen-kuolinhetki'' \<and> e_type s1 = ''service'' \<and>
       e_date s1 = formatDate (addDays (easterSunday (Y + 1)) (- 2)) \<and>
       e_slug s2 = ''pitkaperjantain-ilta'' \<and> e_type s2 = ''service'' \<and>
       e_date s2 = formatDate (addDays (easterSunday (Y + 1)) (- 2))"
      by (rule resolveDate_goodFriday_fields [OF assms Y])
  qed
  show ?thesis by (intro conjI A P G)
qed

theorem resolveDate_precedence_witness:
  "cacheValid Map.empty \<and> (100::int) \<le> 2025 \<and>
   formatDate (addDays (easterSunday (2025 + 1)) (- 2)) = (2026, 4, 3) \<and>
   filter (\<lambda>e. dateStr e = formatDate (dateOf (DateObject (addDays (easterSunday (2025 + 1)) (- 2)))))
     (generateChurchYear
        (getChurchYearStart (dateOf (DateObject (addDays (easterSunday (2025 + 1)) (- 2)))))) \<noteq> [] \<and>
   holyDay (fst (resolveDate (\<lambda>s. None) Map.empty
       (DateObject (addDays (easterSunday (2025 + 1)) (- 2))))) =
     Val (enrichEntry (\<lambda>s. None)
       (add (addDays (easterSunday (2025 + 1)) (- 2)) ''pitkaperjantai'' ''feast'') (getYearCycle 2025)) \<and>
   additionalServices (fst (resolveDate (\<lambda>s. None) Map.empty
       (DateObject (addDays (easterSunday (2025 + 1)) (- 2))))) =
     Val [enrichEntry (\<lambda>s. None)
            (add (addDays (easterSunday (2025 + 1)) (- 2)) ''jeesuksen-kuolinhetki'' ''service'')
            (getYearCycle 2025),
          enrichEntry (\<lambda>s. None)
            (add (addDays (easterSunday (2025 + 1)) (- 2)) ''pitkaperjantain-ilta'' ''service'')
            (getYearCycle 2025)] \<and>
   (\<exists>x s1 s2.
      holyDay (fst (resolveDate (\<lambda>s. None) Map.empty
        (DateObject (addDays (easterSunday (2025 + 1)) (- 2))))) = Val x \<and>
      additionalServices (fst (resolveDate (\<lambda>s. None) Map.empty
        (DateObject (addDays (easterSunday (2025 + 1)) (- 2))))) = Val [s1, s2] \<and>
      e_slug x = ''pitkaperjantai'' \<and> e_type x = ''feast'' \<and> e_date x = (2026, 4, 3) \<and>
      e_slug s1 = ''jeesuksen-kuolinhetki'' \<and> e_type s1 = ''service'' \<and>
      e_date s1 = (2026, 4, 3) \<and>
      e_slug s2 = ''pitkaperjantain-ilta'' \<and> e_type s2 = ''service'' \<and>
      e_date s2 = (2026, 4, 3)) \<and>
   (\<exists>h rest.
      holyDay (fst (resolveDate (\<lambda>s. None) Map.empty
        (DateObject (addDays (easterSunday (2025 + 1)) (- 2))))) =
        Val (enrichEntry (\<lambda>s. None) h (getYearCycle (getChurchYearStart
          (dateOf (DateObject (addDays (easterSunday (2025 + 1)) (- 2))))))) \<and>
      (\<exists>x. holyDay (fst (resolveDate (\<lambda>s. None) Map.empty
              (DateObject (addDays (easterSunday (2025 + 1)) (- 2))))) = Val x \<and>
           e_slug x = slug h \<and> e_type x = type h \<and> e_date x = dateStr h) \<and>
      sorted (map (\<lambda>e. priority (type e)) (h # rest)))"
proof -
  let ?g = "addDays (easterSunday (2025 + 1)) (- 2)"
  let ?arg = "DateObject ?g"
  let ?r = "fst (resolveDate (\<lambda>s. None) Map.empty ?arg)"
  have v: "cacheValid Map.empty" by (rule cacheValid_empty)
  have y: "(100::int) \<le> 2025" by simp
  have f: "formatDate ?g = (2026, 4, 3)" by code_simp
  note T = resolveDate_precedence [OF v, of ?arg "\<lambda>s. None" 2025, unfolded Let_def]
  have S: "getChurchYearStart (dateOf ?arg) = 2025"
    using getChurchYearStart_goodFriday [of 2025] by simp
  have ne: "filter (\<lambda>e. dateStr e = formatDate (dateOf ?arg))
     (generateChurchYear (getChurchYearStart (dateOf ?arg))) \<noteq> []"
    unfolding S using goodFriday_matches [OF y] by (simp add: matches_generation_order)
  from T have T1: "filter (\<lambda>e. dateStr e = formatDate (dateOf ?arg))
     (generateChurchYear (getChurchYearStart (dateOf ?arg))) \<noteq> [] \<longrightarrow>
     (\<exists>h rest.
        holyDay ?r = Val (enrichEntry (\<lambda>s. None) h (getYearCycle (getChurchYearStart (dateOf ?arg)))) \<and>
        additionalServices ?r =
          Val (map (\<lambda>e. enrichEntry (\<lambda>s. None) e (getYearCycle (getChurchYearStart (dateOf ?arg)))) rest) \<and>
        (\<exists>x xs. holyDay ?r = Val x \<and> additionalServices ?r = Val xs \<and>
           e_slug x = slug h \<and> e_type x = type h \<and> e_date x = dateStr h \<and>
           map e_slug xs = map slug rest \<and> map e_type xs = map type rest \<and>
           map e_date xs = map dateStr rest) \<and>
        (\<forall>e \<in> set (h # rest). dateStr e = formatDate (dateOf ?arg) \<and> date e = dateOf ?arg) \<and>
        mset (h # rest) =
          mset (filter (\<lambda>e. dateStr e = formatDate (dateOf ?arg))
                 (generateChurchYear (getChurchYearStart (dateOf ?arg)))) \<and>
        sorted (map (\<lambda>e. priority (type e)) (h # rest)) \<and>
        (\<forall>p. filter (\<lambda>e. priority (type e) = p) (h # rest) =
             filter (\<lambda>e. priority (type e) = p)
               (filter (\<lambda>e. dateStr e = formatDate (dateOf ?arg))
                 (generateChurchYear (getChurchYearStart (dateOf ?arg))))) \<and>
        (\<forall>e \<in> set (filter (\<lambda>e. dateStr e = formatDate (dateOf ?arg))
                   (generateChurchYear (getChurchYearStart (dateOf ?arg)))).
            priority (type h) \<le> priority (type e)) \<and>
        h = hd (filter (\<lambda>e. priority (type e) = priority (type h))
                 (filter (\<lambda>e. dateStr e = formatDate (dateOf ?arg))
                   (generateChurchYear (getChurchYearStart (dateOf ?arg))))) \<and>
        filter (\<lambda>e. dateStr e = formatDate (dateOf ?arg))
          (generateChurchYear (getChurchYearStart (dateOf ?arg))) =
        filter (\<lambda>e. date e = dateOf ?arg) (generatedEntries (getChurchYearStart (dateOf ?arg))))"
    by (rule conjunct1)
  from T have T2: "(100::int) \<le> 2025 \<longrightarrow>
      holyDay ?r = Val (enrichEntry (\<lambda>s. None) (add ?g ''pitkaperjantai'' ''feast'') (getYearCycle 2025)) \<and>
      additionalServices ?r =
        Val [enrichEntry (\<lambda>s. None) (add ?g ''jeesuksen-kuolinhetki'' ''service'') (getYearCycle 2025),
             enrichEntry (\<lambda>s. None) (add ?g ''pitkaperjantain-ilta'' ''service'') (getYearCycle 2025)] \<and>
      (\<exists>x s1 s2. holyDay ?r = Val x \<and> additionalServices ?r = Val [s1, s2] \<and>
         e_slug x = ''pitkaperjantai'' \<and> e_type x = ''feast'' \<and> e_date x = formatDate ?g \<and>
         e_slug s1 = ''jeesuksen-kuolinhetki'' \<and> e_type s1 = ''service'' \<and>
         e_date s1 = formatDate ?g \<and>
         e_slug s2 = ''pitkaperjantain-ilta'' \<and> e_type s2 = ''service'' \<and>
         e_date s2 = formatDate ?g)"
    by (elim conjE)
  note T3 = mp [OF T2 y]
  note h = T3 [THEN conjunct1]
  note a = T3 [THEN conjunct2, THEN conjunct1]
  note x = T3 [THEN conjunct2, THEN conjunct2]
  note x' = x [unfolded f]
  from mp [OF T1 ne] obtain h0 rest0 where B:
    "holyDay ?r = Val (enrichEntry (\<lambda>s. None) h0 (getYearCycle (getChurchYearStart (dateOf ?arg)))) \<and>
     additionalServices ?r =
       Val (map (\<lambda>e. enrichEntry (\<lambda>s. None) e (getYearCycle (getChurchYearStart (dateOf ?arg)))) rest0) \<and>
     (\<exists>x xs. holyDay ?r = Val x \<and> additionalServices ?r = Val xs \<and>
        e_slug x = slug h0 \<and> e_type x = type h0 \<and> e_date x = dateStr h0 \<and>
        map e_slug xs = map slug rest0 \<and> map e_type xs = map type rest0 \<and>
        map e_date xs = map dateStr rest0) \<and>
     (\<forall>e \<in> set (h0 # rest0). dateStr e = formatDate (dateOf ?arg) \<and> date e = dateOf ?arg) \<and>
     mset (h0 # rest0) =
       mset (filter (\<lambda>e. dateStr e = formatDate (dateOf ?arg))
              (generateChurchYear (getChurchYearStart (dateOf ?arg)))) \<and>
     sorted (map (\<lambda>e. priority (type e)) (h0 # rest0)) \<and>
     (\<forall>p. filter (\<lambda>e. priority (type e) = p) (h0 # rest0) =
          filter (\<lambda>e. priority (type e) = p)
            (filter (\<lambda>e. dateStr e = formatDate (dateOf ?arg))
              (generateChurchYear (getChurchYearStart (dateOf ?arg))))) \<and>
     (\<forall>e \<in> set (filter (\<lambda>e. dateStr e = formatDate (dateOf ?arg))
                (generateChurchYear (getChurchYearStart (dateOf ?arg)))).
         priority (type h0) \<le> priority (type e)) \<and>
     h0 = hd (filter (\<lambda>e. priority (type e) = priority (type h0))
              (filter (\<lambda>e. dateStr e = formatDate (dateOf ?arg))
                (generateChurchYear (getChurchYearStart (dateOf ?arg))))) \<and>
     filter (\<lambda>e. dateStr e = formatDate (dateOf ?arg))
       (generateChurchYear (getChurchYearStart (dateOf ?arg))) =
     filter (\<lambda>e. date e = dateOf ?arg) (generatedEntries (getChurchYearStart (dateOf ?arg)))"
    by (elim exE)
  note g1 = B [THEN conjunct1]
  note g2 = B [THEN conjunct2, THEN conjunct2, THEN conjunct1]
  note g3 = B [THEN conjunct2, THEN conjunct2, THEN conjunct2, THEN conjunct2, THEN conjunct2,
    THEN conjunct1]
  from g2 have g2': "\<exists>x. holyDay ?r = Val x \<and>
           e_slug x = slug h0 \<and> e_type x = type h0 \<and> e_date x = dateStr h0"
    by (elim exE conjE, intro exI conjI)
  have e: "\<exists>h rest.
      holyDay ?r = Val (enrichEntry (\<lambda>s. None) h (getYearCycle (getChurchYearStart (dateOf ?arg)))) \<and>
      (\<exists>x. holyDay ?r = Val x \<and> e_slug x = slug h \<and> e_type x = type h \<and> e_date x = dateStr h) \<and>
      sorted (map (\<lambda>e. priority (type e)) (h # rest))"
    by (intro exI [of _ h0] exI [of _ rest0] conjI g1 g2' g3)
  show ?thesis by (intro conjI v y f ne h a x' e)
qed

end
